theory Spec2Isabelle
  imports Complex_Main "HOL-Library.Sublist"
begin

section \<open>Strings of the source language\<close>

text \<open>
  A JavaScript string is modelled as a \<^typ>\<open>string\<close>, one \<^typ>\<open>char\<close> per code unit: the
  code units \<open>0x00\<close> to \<open>0xFF\<close>. A string with a code unit above \<open>0xFF\<close> is outside the
  model.
\<close>

definition lower_letters :: string where
  "lower_letters = ''abcdefghijklmnopqrstuvwxyz''"

definition upper_letters :: string where
  "upper_letters = ''ABCDEFGHIJKLMNOPQRSTUVWXYZ''"

definition digit_chars :: string where
  "digit_chars = ''0123456789''"

text \<open>
  The letters of the range above \<open>0x7F\<close> that have a case partner in the range: \<open>0xE0\<close> to
  \<open>0xFE\<close> without the division sign \<open>0xF7\<close>, and \<open>0xC0\<close> to \<open>0xDE\<close> without the
  multiplication sign \<open>0xD7\<close>, in the same order.
\<close>

definition latin_lower :: string where
  "latin_lower =
     [CHR 0xE0, CHR 0xE1, CHR 0xE2, CHR 0xE3, CHR 0xE4, CHR 0xE5, CHR 0xE6, CHR 0xE7,
      CHR 0xE8, CHR 0xE9, CHR 0xEA, CHR 0xEB, CHR 0xEC, CHR 0xED, CHR 0xEE, CHR 0xEF,
      CHR 0xF0, CHR 0xF1, CHR 0xF2, CHR 0xF3, CHR 0xF4, CHR 0xF5, CHR 0xF6, CHR 0xF8,
      CHR 0xF9, CHR 0xFA, CHR 0xFB, CHR 0xFC, CHR 0xFD, CHR 0xFE]"

definition latin_upper :: string where
  "latin_upper =
     [CHR 0xC0, CHR 0xC1, CHR 0xC2, CHR 0xC3, CHR 0xC4, CHR 0xC5, CHR 0xC6, CHR 0xC7,
      CHR 0xC8, CHR 0xC9, CHR 0xCA, CHR 0xCB, CHR 0xCC, CHR 0xCD, CHR 0xCE, CHR 0xCF,
      CHR 0xD0, CHR 0xD1, CHR 0xD2, CHR 0xD3, CHR 0xD4, CHR 0xD5, CHR 0xD6, CHR 0xD8,
      CHR 0xD9, CHR 0xDA, CHR 0xDB, CHR 0xDC, CHR 0xDD, CHR 0xDE]"

definition upper_char :: "char \<Rightarrow> char" where
  "upper_char c =
     (case map_of (zip (lower_letters @ latin_lower) (upper_letters @ latin_upper)) c of
        Some u \<Rightarrow> u
      | None \<Rightarrow> c)"

definition lower_char :: "char \<Rightarrow> char" where
  "lower_char c =
     (case map_of (zip (upper_letters @ latin_upper) (lower_letters @ latin_lower)) c of
        Some l \<Rightarrow> l
      | None \<Rightarrow> c)"

text \<open>
  The upper case of one code unit. That of the sharp s, \<open>0xDF\<close>, is two code units. That
  of the micro sign \<open>0xB5\<close> and of \<open>0xFF\<close> is a code unit above \<open>0xFF\<close>, outside the
  model; these two are left as they are.
\<close>

definition upper_units :: "char \<Rightarrow> string" where
  "upper_units c = (if c = CHR 0xDF then ''SS'' else [upper_char c])"

text \<open>\<^verbatim>\<open>s.toUpperCase()\<close> and \<^verbatim>\<open>s.toLowerCase()\<close>.\<close>

definition toUpperCase :: "string \<Rightarrow> string" where
  "toUpperCase s = concat (map upper_units s)"

definition toLowerCase :: "string \<Rightarrow> string" where
  "toLowerCase s = map lower_char s"

text \<open>The white space that \<^verbatim>\<open>trim\<close> removes: tab, line feed, vertical tab, form feed,
  carriage return, space and no-break space.\<close>

definition is_space :: "char \<Rightarrow> bool" where
  "is_space c =
     (c \<in> set [CHR 0x09, CHR 0x0A, CHR 0x0B, CHR 0x0C, CHR 0x0D, CHR '' '', CHR 0xA0])"

definition trim :: "string \<Rightarrow> string" where
  "trim s = rev (dropWhile is_space (rev (dropWhile is_space s)))"

text \<open>\<^verbatim>\<open>s.split(c)\<close> for a one-character separator: the result is never empty, and
  \<^verbatim>\<open>"".split(" ")\<close> is \<^verbatim>\<open>[""]\<close>.\<close>

fun split :: "char \<Rightarrow> string \<Rightarrow> string list" where
  "split c [] = [[]]"
| "split c (x # xs) =
     (if x = c then [] # split c xs
      else (case split c xs of
              [] \<Rightarrow> [[x]]
            | w # ws \<Rightarrow> (x # w) # ws))"

text \<open>\<^verbatim>\<open>xs.join(sep)\<close>.\<close>

fun join :: "string \<Rightarrow> string list \<Rightarrow> string" where
  "join sep [] = []"
| "join sep [w] = w"
| "join sep (w # v # ws) = w @ sep @ join sep (v # ws)"

text \<open>\<^verbatim>\<open>s.startsWith(p)\<close>, \<^verbatim>\<open>s.endsWith(p)\<close>, and an unanchored match of a literal.\<close>

definition startsWith :: "string \<Rightarrow> string \<Rightarrow> bool" where
  "startsWith s p = prefix p s"

definition endsWith :: "string \<Rightarrow> string \<Rightarrow> bool" where
  "endsWith s p = suffix p s"

definition str_includes :: "string \<Rightarrow> string \<Rightarrow> bool" where
  "str_includes s p = sublist p s"

text \<open>\<^verbatim>\<open>s.replace(/c/g, d)\<close> for single characters \<open>c\<close> and \<open>d\<close>.\<close>

definition replace_char :: "char \<Rightarrow> char \<Rightarrow> string \<Rightarrow> string" where
  "replace_char c d s = map (\<lambda>x. if x = c then d else x) s"

section \<open>The classifier of \<^verbatim>\<open>processSitemap\<close>\<close>

text \<open>\<^verbatim>\<open>isValidKeyword\<close>: at least two words that are not blank.\<close>

definition isValidKeyword :: "string \<Rightarrow> bool" where
  "isValidKeyword keyword =
     (let words = filter (\<lambda>word. trim word \<noteq> []) (split CHR '' '' keyword)
      in length words \<ge> 2)"

text \<open>The filter \<^verbatim>\<open>/(blog|blogs|blogging|blog-post|blog-posts)/i.test(url)\<close>: an
  unanchored, case-insensitive match of one of five literals against the whole string.\<close>

definition blog_alternatives :: "string list" where
  "blog_alternatives = [''blog'', ''blogs'', ''blogging'', ''blog-post'', ''blog-posts'']"

definition matches_ci :: "string \<Rightarrow> string \<Rightarrow> bool" where
  "matches_ci literal s = str_includes (toLowerCase s) (toLowerCase literal)"

definition blog_test :: "string \<Rightarrow> bool" where
  "blog_test url = list_ex (\<lambda>alt. matches_ci alt url) blog_alternatives"

text \<open>\<^verbatim>\<open>url.replace(/^https?:\/\/[^\/]+/, '')\<close>: a leading \<^verbatim>\<open>http://\<close> or
  \<^verbatim>\<open>https://\<close> followed by at least one character other than a slash is removed, up to
  the first slash.\<close>

definition after_scheme :: "string \<Rightarrow> string option" where
  "after_scheme url =
     (if prefix ''https://'' url then Some (drop 8 url)
      else if prefix ''http://'' url then Some (drop 7 url)
      else None)"

definition withoutDomain :: "string \<Rightarrow> string" where
  "withoutDomain url =
     (case after_scheme url of
        None \<Rightarrow> url
      | Some rest \<Rightarrow>
          if takeWhile (\<lambda>c. c \<noteq> CHR ''/'') rest = [] then url
          else dropWhile (\<lambda>c. c \<noteq> CHR ''/'') rest)"

text \<open>\<^verbatim>\<open>.replace(/^\/|\/$/g, '')\<close>: one leading slash and, in what is left, one trailing
  slash.\<close>

definition strip_slashes :: "string \<Rightarrow> string" where
  "strip_slashes s =
     (let s1 = (if prefix ''/'' s then drop 1 s else s)
      in if suffix ''/'' s1 then butlast s1 else s1)"

text \<open>\<^verbatim>\<open>.replace(/\.html$|\.php$/g, '')\<close>.\<close>

definition strip_extension :: "string \<Rightarrow> string" where
  "strip_extension s =
     (if suffix ''.html'' s then take (length s - 5) s
      else if suffix ''.php'' s then take (length s - 4) s
      else s)"

definition withoutSlashes :: "string \<Rightarrow> string" where
  "withoutSlashes url = strip_extension (strip_slashes (withoutDomain url))"

definition words_of :: "string \<Rightarrow> string list" where
  "words_of url =
     filter (\<lambda>word. length (trim word) > 0)
       (split CHR '' '' (replace_char CHR ''-'' CHR '' '' (withoutSlashes url)))"

text \<open>The callback of \<^verbatim>\<open>words.map((word, index) => ...)\<close>; \<open>n\<close> is \<^verbatim>\<open>words.length\<close>.\<close>

definition transform_word :: "nat \<Rightarrow> (nat \<times> string) \<Rightarrow> string" where
  "transform_word n iw =
     (case iw of (index, word) \<Rightarrow>
        if int index = int n - 1 \<and> toLowerCase word = ''nj'' then toUpperCase word
        else toUpperCase (take 1 word) @ toLowerCase (drop 1 word))"

definition transformedWords :: "string list \<Rightarrow> string list" where
  "transformedWords words = map (transform_word (length words)) (enumerate 0 words)"

definition transform :: "string \<Rightarrow> string" where
  "transform url = join '' '' (transformedWords (words_of url))"

text \<open>The accumulator of the \<^verbatim>\<open>reduce\<close> and its callback.\<close>

record acc =
  acc_keywords :: "string list"
  acc_phrases :: "string list"

definition classify_step :: "acc \<Rightarrow> string \<Rightarrow> acc" where
  "classify_step a phrase =
     (if endsWith phrase ''NJ'' \<and> isValidKeyword phrase
        then a\<lparr>acc_keywords := acc_keywords a @ [phrase]\<rparr>
      else if \<not> endsWith phrase ''NJ'' \<and> isValidKeyword phrase
        then a\<lparr>acc_phrases := acc_phrases a @ [phrase]\<rparr>
      else a)"

text \<open>The chain \<^verbatim>\<open>.filter(...).map(...).filter(...).reduce(...)\<close> over the \<^verbatim>\<open>loc\<close>
  values.\<close>

definition transformed_phrases :: "string list \<Rightarrow> string list" where
  "transformed_phrases locs =
     filter (\<lambda>text. length text > 0) (map transform (filter (\<lambda>url. \<not> blog_test url) locs))"

definition classify_all :: "string list \<Rightarrow> acc" where
  "classify_all locs =
     foldl classify_step \<lparr>acc_keywords = [], acc_phrases = []\<rparr> (transformed_phrases locs)"

text \<open>What the chain does with a single \<^verbatim>\<open>loc\<close> value.\<close>

datatype classified = Rejected | Keyword string | Phrase string

definition classify :: "string \<Rightarrow> classified" where
  "classify rawUrl =
     (let a = classify_all [rawUrl]
      in case (acc_keywords a, acc_phrases a) of
           (k # _, _) \<Rightarrow> Keyword k
         | ([], p # _) \<Rightarrow> Phrase p
         | ([], []) \<Rightarrow> Rejected)"

section \<open>The transformation in the words of the specification\<close>











section \<open>The transformation as amended\<close>




section \<open>The collaborators of \<^verbatim>\<open>processSitemap\<close>\<close>

text \<open>
  A thrown value carries its message. A \<open>TypeError\<close> is raised by the language itself
  (a property read from \<^verbatim>\<open>undefined\<close>); every other failure comes from a collaborator:
  the URL constructor, the file system, the HTTP client, the XML parser, the completion
  provider.
\<close>

datatype error = TypeError string | ExternalError string

text \<open>
  The object that the XML parser returns, as far as the source reads it:
  \<^verbatim>\<open>result.urlset\<close>, \<^verbatim>\<open>result.urlset.url\<close> and \<^verbatim>\<open>urlEntry.loc\<close>, each of which is
  \<^verbatim>\<open>undefined\<close> (\<open>None\<close>) when the document has no such element. The parser is a
  collaborator; only the shape of its result is modelled.
\<close>

record url_entry =
  entry_loc :: "string list option"

record urlset_node =
  urlset_url :: "url_entry list option"

record xml_result =
  result_urlset :: "urlset_node option"

text \<open>
  The effects of a run, in the order in which they happen. Console output is left out.
\<close>

datatype event =
    Mkdir string
  | Get string
  | Parse string
  | WriteFile string string
  | Complete string
  | Sleep nat

text \<open>
  What the outside world answers during one pass through the \<^verbatim>\<open>try\<close> block: the host
  name that the URL constructor finds, the clock, the outcome of each file operation, of
  the request and of the parser, the value of \<^verbatim>\<open>Math.random()\<close>, and the answer to the
  \<open>n\<close>-th completion request of the pass (the \<^verbatim>\<open>content\<close> of each of its
  \<^verbatim>\<open>choices\<close>).
\<close>

record attempt_env =
  env_hostname :: "error + string"
  env_now :: string
  env_mkdir :: "error option"
  env_get :: "error + string"
  env_parse :: "error + xml_result"
  env_write_keywords :: "error option"
  env_write_phrases :: "error option"
  env_random :: rat
  env_completions :: "nat \<Rightarrow> error + string list"
  env_write_article :: "error option"

text \<open>The value that \<^verbatim>\<open>processSitemap\<close> returns.\<close>

record domain_result =
  domain :: string
  outputDir :: string
  keywordCount :: nat
  phraseCount :: nat
  processedKeyword :: string

text \<open>\<^verbatim>\<open>RATE_LIMIT_DELAY\<close> and \<^verbatim>\<open>MAX_WORKERS\<close> come from a configuration module that
  is not part of the sources; they are parameters \<open>delay\<close> and \<open>max_workers\<close> below.\<close>

definition maxRetries :: nat where
  "maxRetries = 3"

text \<open>\<^verbatim>\<open>getTimestamp\<close>, applied to the ISO rendering of the clock.\<close>

definition getTimestamp :: "string \<Rightarrow> string" where
  "getTimestamp now = map (\<lambda>c. if c = CHR '':'' \<or> c = CHR ''.'' then CHR ''-'' else c) now"

text \<open>\<^verbatim>\<open>path.join(a, b)\<close> for two segments that need no normalisation.\<close>

definition path_join :: "string \<Rightarrow> string \<Rightarrow> string" where
  "path_join a b = a @ ''/'' @ b"

section \<open>\<^verbatim>\<open>generateArticle\<close>\<close>

text \<open>\<^verbatim>\<open>completion.choices[0].message.content\<close>: reading \<^verbatim>\<open>message\<close> from a missing first
  choice throws.\<close>

definition completion_content :: "error + string list \<Rightarrow> error + string" where
  "completion_content answer =
     (case answer of
        Inl e \<Rightarrow> Inl e
      | Inr [] \<Rightarrow> Inl (TypeError ''Cannot read properties of undefined (reading message)'')
      | Inr (c # _) \<Rightarrow> Inr c)"

text \<open>
  The loop of \<^verbatim>\<open>generateArticle\<close>, entered with the counter \<open>attempts\<close>. The result is
  the article (\<open>Some\<close>), or \<open>None\<close> for the \<^verbatim>\<open>undefined\<close> of a loop that is left without a
  \<^verbatim>\<open>return\<close>, or the error thrown; with it come the events in order.
\<close>

function generateArticle_loop ::
  "nat \<Rightarrow> (nat \<Rightarrow> error + string list) \<Rightarrow> string \<Rightarrow> nat \<Rightarrow> (error + string option) \<times> event list"
where
  "generateArticle_loop delay create keyword attempts =
     (if attempts < maxRetries then
        (case completion_content (create attempts) of
           Inr content \<Rightarrow> (Inr (Some content), [Sleep delay, Complete keyword])
         | Inl e \<Rightarrow>
             if attempts + 1 = maxRetries then (Inl e, [Sleep delay, Complete keyword])
             else (case generateArticle_loop delay create keyword (attempts + 1) of
                     (r, ev) \<Rightarrow>
                       (r, [Sleep delay, Complete keyword, Sleep (delay * (attempts + 1))] @ ev)))
      else (Inr None, []))"
  by pat_completeness auto
termination
  by (relation "measure (\<lambda>(delay, create, keyword, attempts). maxRetries - attempts)") auto

declare generateArticle_loop.simps [simp del]

definition generateArticle ::
  "nat \<Rightarrow> (nat \<Rightarrow> error + string list) \<Rightarrow> string \<Rightarrow> (error + string option) \<times> event list"
where
  "generateArticle delay create keyword = generateArticle_loop delay create keyword 0"

section \<open>\<^verbatim>\<open>processSitemap\<close>\<close>

text \<open>\<^verbatim>\<open>result.urlset.url\<close>, on which \<^verbatim>\<open>map\<close> is called.\<close>

definition entries_of :: "xml_result \<Rightarrow> error + url_entry list" where
  "entries_of result =
     (case result_urlset result of
        None \<Rightarrow> Inl (TypeError ''Cannot read properties of undefined (reading url)'')
      | Some us \<Rightarrow>
          (case urlset_url us of
             None \<Rightarrow> Inl (TypeError ''Cannot read properties of undefined (reading map)'')
           | Some entries \<Rightarrow> Inr entries))"

text \<open>
  \<^verbatim>\<open>.map(urlEntry => urlEntry.loc[0])\<close>. An entry without \<^verbatim>\<open>loc\<close> throws at once; a
  \<^verbatim>\<open>loc\<close> without elements yields \<^verbatim>\<open>undefined\<close>, which passes the blog filter and
  throws in the transformation, when \<^verbatim>\<open>replace\<close> is read from it.
\<close>

fun locs_of :: "url_entry list \<Rightarrow> error + string list" where
  "locs_of [] = Inr []"
| "locs_of (e # es) =
     (case entry_loc e of
        None \<Rightarrow> Inl (TypeError ''Cannot read properties of undefined (reading 0)'')
      | Some [] \<Rightarrow> Inl (TypeError ''Cannot read properties of undefined (reading replace)'')
      | Some (l # _) \<Rightarrow>
          (case locs_of es of Inl err \<Rightarrow> Inl err | Inr ls \<Rightarrow> Inr (l # ls)))"

text \<open>
  Lines 52 to 58: request, parser, and the \<^verbatim>\<open>loc\<close> values of the entries.
\<close>

definition fetch_locs :: "string \<Rightarrow> attempt_env \<Rightarrow> (error + string list) \<times> event list" where
  "fetch_locs sitemapUrl env =
     (case env_get env of
        Inl e \<Rightarrow> (Inl e, [Get sitemapUrl])
      | Inr data \<Rightarrow>
          (case env_parse env of
             Inl e \<Rightarrow> (Inl e, [Get sitemapUrl, Parse data])
           | Inr result \<Rightarrow>
               (case entries_of result of
                  Inl e \<Rightarrow> (Inl e, [Get sitemapUrl, Parse data])
                | Inr entries \<Rightarrow> (locs_of entries, [Get sitemapUrl, Parse data]))))"

text \<open>
  Lines 85 to 88: both files are written; the promise of the pair fails when one of
  them does (when both do, the model reports the error of the keywords file).
\<close>

definition write_lists ::
  "string \<Rightarrow> string \<Rightarrow> acc \<Rightarrow> attempt_env \<Rightarrow> error option \<times> event list"
where
  "write_lists dir timestamp a env =
     (case env_write_keywords env of
        Some e \<Rightarrow> Some e
      | None \<Rightarrow> env_write_phrases env,
      [WriteFile (path_join dir (''keywords_'' @ timestamp @ ''.txt'')) (join [CHR 0x0A] (acc_keywords a)),
       WriteFile (path_join dir (''phrases_'' @ timestamp @ ''.txt'')) (join [CHR 0x0A] (acc_phrases a))])"

text \<open>\<^verbatim>\<open>keywords[Math.floor(Math.random() * keywords.length)]\<close>; an index outside the
  array reads \<^verbatim>\<open>undefined\<close>.\<close>

definition pick :: "rat \<Rightarrow> string list \<Rightarrow> string option" where
  "pick r ks =
     (let i = \<lfloor>r * of_nat (length ks)\<rfloor>
      in if 0 \<le> i \<and> i < int (length ks) then Some (ks ! nat i) else None)"

text \<open>\<^verbatim>\<open>randomKeyword.replace(/[^a-z0-9]/gi, '_').toLowerCase()\<close>.\<close>

definition safeFileName :: "string \<Rightarrow> string" where
  "safeFileName k =
     toLowerCase (map (\<lambda>c. if c \<in> set (lower_letters @ upper_letters @ digit_chars) then c
                            else CHR ''_'') k)"

text \<open>
  Lines 90 to 95, entered when \<^verbatim>\<open>keywords\<close> is not empty: the keyword that becomes
  \<^verbatim>\<open>randomKeyword\<close>, or the error thrown. With \<^verbatim>\<open>undefined\<close> picked, the article is
  requested for it and the file name then throws.
\<close>

definition article_step ::
  "nat \<Rightarrow> string \<Rightarrow> string \<Rightarrow> string list \<Rightarrow> attempt_env \<Rightarrow> (error + string) \<times> event list"
where
  "article_step delay dir timestamp ks env =
     (case pick (env_random env) ks of
        None \<Rightarrow>
          (case generateArticle delay (env_completions env) ''undefined'' of
             (Inl e, ev) \<Rightarrow> (Inl e, ev)
           | (Inr _, ev) \<Rightarrow>
               (Inl (TypeError ''Cannot read properties of undefined (reading replace)''), ev))
      | Some randomKeyword \<Rightarrow>
          (case generateArticle delay (env_completions env) randomKeyword of
             (Inl e, ev) \<Rightarrow> (Inl e, ev)
           | (Inr article, ev) \<Rightarrow>
               (case article of
                  None \<Rightarrow> (Inl (TypeError ''The data argument must be of type string''), ev)
                | Some text \<Rightarrow>
                    (case env_write_article env of
                       Some e \<Rightarrow> Inl e
                     | None \<Rightarrow> Inr randomKeyword,
                     ev @ [WriteFile (path_join dir (safeFileName randomKeyword @ ''_'' @ timestamp @ ''.txt''))
                             text]))))"

text \<open>One pass through the \<^verbatim>\<open>try\<close> block, lines 45 to 103.\<close>

definition attempt :: "nat \<Rightarrow> string \<Rightarrow> attempt_env \<Rightarrow> (error + domain_result) \<times> event list" where
  "attempt delay sitemapUrl env =
     (case env_hostname env of
        Inl e \<Rightarrow> (Inl e, [])
      | Inr host \<Rightarrow>
          (let timestamp = getTimestamp (env_now env);
               dir = path_join ''output'' (host @ ''_'' @ timestamp)
           in case env_mkdir env of
                Some e \<Rightarrow> (Inl e, [Mkdir dir])
              | None \<Rightarrow>
                  (case fetch_locs sitemapUrl env of
                     (Inl e, ev1) \<Rightarrow> (Inl e, Mkdir dir # ev1)
                   | (Inr locs, ev1) \<Rightarrow>
                       (let a = classify_all locs
                        in case write_lists dir timestamp a env of
                             (Some e, ev2) \<Rightarrow> (Inl e, Mkdir dir # ev1 @ ev2)
                           | (None, ev2) \<Rightarrow>
                               if length (acc_keywords a) > 0 then
                                 (case article_step delay dir timestamp (acc_keywords a) env of
                                    (Inl e, ev3) \<Rightarrow> (Inl e, Mkdir dir # ev1 @ ev2 @ ev3)
                                  | (Inr randomKeyword, ev3) \<Rightarrow>
                                      (Inr \<lparr>domain = host, outputDir = dir,
                                            keywordCount = length (acc_keywords a),
                                            phraseCount = length (acc_phrases a),
                                            processedKeyword = randomKeyword\<rparr>,
                                       Mkdir dir # ev1 @ ev2 @ ev3))
                               else
                                 (Inr \<lparr>domain = host, outputDir = dir,
                                       keywordCount = length (acc_keywords a),
                                       phraseCount = length (acc_phrases a),
                                       processedKeyword = ''None''\<rparr>,
                                  Mkdir dir # ev1 @ ev2)))))"

text \<open>
  The retry loop of \<^verbatim>\<open>processSitemap\<close>, entered with the counter \<open>attempts\<close>; \<open>world k\<close>
  is what the outside world answers during the pass that starts with the counter at \<open>k\<close>.
  The result is \<open>Inr (Some r)\<close> for a returned \<open>r\<close>, \<open>Inl e\<close> for a thrown \<open>e\<close>, and
  \<open>Inr None\<close> for the \<^verbatim>\<open>undefined\<close> of a loop left without \<^verbatim>\<open>return\<close>.
\<close>

function processSitemap_loop ::
  "nat \<Rightarrow> string \<Rightarrow> (nat \<Rightarrow> attempt_env) \<Rightarrow> nat \<Rightarrow> (error + domain_result option) \<times> event list"
where
  "processSitemap_loop delay sitemapUrl world attempts =
     (if attempts < maxRetries then
        (case attempt delay sitemapUrl (world attempts) of
           (Inr r, ev) \<Rightarrow> (Inr (Some r), ev)
         | (Inl e, ev) \<Rightarrow>
             if attempts + 1 = maxRetries then (Inl e, ev)
             else (case processSitemap_loop delay sitemapUrl world (attempts + 1) of
                     (r, ev') \<Rightarrow> (r, ev @ [Sleep (delay * (attempts + 1))] @ ev')))
      else (Inr None, []))"
  by pat_completeness auto
termination
  by (relation "measure (\<lambda>(delay, sitemapUrl, world, attempts). maxRetries - attempts)") auto

declare processSitemap_loop.simps [simp del]

definition processSitemap ::
  "nat \<Rightarrow> string \<Rightarrow> (nat \<Rightarrow> attempt_env) \<Rightarrow> (error + domain_result option) \<times> event list"
where
  "processSitemap delay sitemapUrl world = processSitemap_loop delay sitemapUrl world 0"

text \<open>The outcome of a unit: a returned result is a success, a thrown error a failure.\<close>

datatype outcome = Success domain_result | Failure error | Undefined

definition outcome_of :: "(error + domain_result option) \<times> event list \<Rightarrow> outcome" where
  "outcome_of res =
     (case fst res of Inl e \<Rightarrow> Failure e | Inr None \<Rightarrow> Undefined | Inr (Some r) \<Rightarrow> Success r)"

text \<open>The \<^verbatim>\<open>keywords\<close> array that a pass builds from the document it gets (empty when
  it gets none).\<close>

definition attempt_keywords :: "string \<Rightarrow> attempt_env \<Rightarrow> string list" where
  "attempt_keywords sitemapUrl env =
     (case fst (fetch_locs sitemapUrl env) of
        Inl e \<Rightarrow> []
      | Inr locs \<Rightarrow> acc_keywords (classify_all locs))"

text \<open>A parsed document without a \<^verbatim>\<open>urlset\<close> root, or whose root has no \<^verbatim>\<open>url\<close>
  children.\<close>

definition lacks_entries :: "xml_result \<Rightarrow> bool" where
  "lacks_entries result =
     (case result_urlset result of None \<Rightarrow> True | Some us \<Rightarrow> urlset_url us = None)"

section \<open>The coordinator: \<^verbatim>\<open>main\<close>\<close>

text \<open>
  The coordinator runs on one thread: between two \<^verbatim>\<open>await\<close>s nothing else happens, and
  the handlers of worker events run only while it is suspended. A state of the model is
  the coordinator suspended at an \<^verbatim>\<open>await\<close>: in the inner \<^verbatim>\<open>while\<close> loop (\<open>Polling\<close>), after
  a launch (\<open>Pausing\<close>), or for the exit of the last workers (\<open>Draining\<close>); or past that
  (\<open>Finished\<close>). \<open>workers\<close> is the key set of the map of that name, in insertion order; a
  worker is named by the number of workers created before it.
\<close>

datatype pc = Polling | Pausing | Draining | Finished

datatype sched_event = Launch nat string | Wait nat | Exited nat

record sched =
  pending :: "string list"
  workers :: "nat list"
  awaited :: "nat list"
  launched :: nat
  trace :: "sched_event list"
  pc :: pc

text \<open>
  The coordinator from the head of the inner \<^verbatim>\<open>while\<close> loop (line 162) to its next
  \<^verbatim>\<open>await\<close>; \<open>pending\<close> starts with the URL of the current iteration of the \<^verbatim>\<open>for\<close> loop.
  With no URL left it waits for the exit of the workers then in the map (lines 200 to 203).
\<close>

definition dispatch :: "nat \<Rightarrow> nat \<Rightarrow> sched \<Rightarrow> sched" where
  "dispatch max_workers delay s =
     (case pending s of
        [] \<Rightarrow>
          if workers s = [] then s\<lparr>awaited := [], pc := Finished\<rparr>
          else s\<lparr>awaited := workers s, pc := Draining\<rparr>
      | sitemapUrl # rest \<Rightarrow>
          if length (workers s) \<ge> max_workers
          then s\<lparr>trace := trace s @ [Wait delay], pc := Polling\<rparr>
          else s\<lparr>workers := workers s @ [launched s],
                 launched := Suc (launched s),
                 trace := trace s @ [Launch (launched s) sitemapUrl, Wait delay],
                 pc := Pausing\<rparr>)"

text \<open>
  What wakes the coordinator or runs a handler while it is suspended: a timer that fires,
  or the \<^verbatim>\<open>exit\<close> event of a worker, whose handler (line 190) deletes it from the map.
\<close>

datatype sched_input = Timer | WorkerExit nat

definition on_exit :: "nat \<Rightarrow> sched \<Rightarrow> sched" where
  "on_exit w s =
     (if w \<in> set (workers s) then
        (let s' = s\<lparr>workers := removeAll w (workers s), trace := trace s @ [Exited w]\<rparr>
         in if pc s = Draining then
              (if removeAll w (awaited s) = [] then s'\<lparr>awaited := [], pc := Finished\<rparr>
               else s'\<lparr>awaited := removeAll w (awaited s)\<rparr>)
            else s')
      else s)"

definition sched_step :: "nat \<Rightarrow> nat \<Rightarrow> sched \<Rightarrow> sched_input \<Rightarrow> sched" where
  "sched_step max_workers delay s inp =
     (case inp of
        Timer \<Rightarrow>
          (case pc s of
             Polling \<Rightarrow> dispatch max_workers delay s
           | Pausing \<Rightarrow> dispatch max_workers delay (s\<lparr>pending := tl (pending s)\<rparr>)
           | Draining \<Rightarrow> s
           | Finished \<Rightarrow> s)
      | WorkerExit w \<Rightarrow> on_exit w s)"

definition sched_init :: "nat \<Rightarrow> nat \<Rightarrow> string list \<Rightarrow> sched" where
  "sched_init max_workers delay sitemapUrls =
     dispatch max_workers delay
       \<lparr>pending = sitemapUrls, workers = [], awaited = [], launched = 0, trace = [],
        pc = Polling\<rparr>"

definition sched_run :: "nat \<Rightarrow> nat \<Rightarrow> string list \<Rightarrow> sched_input list \<Rightarrow> sched" where
  "sched_run max_workers delay sitemapUrls inputs =
     foldl (sched_step max_workers delay) (sched_init max_workers delay sitemapUrls) inputs"

text \<open>A trace in which every launch is directly followed by a wait of the given length.\<close>

fun spaced :: "nat \<Rightarrow> sched_event list \<Rightarrow> bool" where
  "spaced d [] = True"
| "spaced d (Launch w u # Wait d' # es) = (d' = d \<and> spaced d es)"
| "spaced d (Launch w u # es) = False"
| "spaced d (e # es) = spaced d es"

section \<open>The summary step of \<^verbatim>\<open>main\<close>\<close>

text \<open>The decimal rendering of a count in a template string.\<close>

fun string_of_nat :: "nat \<Rightarrow> string" where
  "string_of_nat n =
     (if n < 10 then [digit_chars ! n]
      else string_of_nat (n div 10) @ [digit_chars ! (n mod 10)])"

text \<open>Line 207.\<close>

definition summary_line :: "domain_result \<Rightarrow> string" where
  "summary_line r =
     domain r @ '': '' @ string_of_nat (keywordCount r) @ '' keywords, ''
       @ string_of_nat (phraseCount r) @ '' phrases, processed keyword: '' @ processedKeyword r"

text \<open>
  Lines 206 to 214: for each result, in order, the file written and its content; the
  content is \<open>None\<close> when \<^verbatim>\<open>find\<close> returns \<^verbatim>\<open>undefined\<close>.
\<close>

definition write_summaries :: "string \<Rightarrow> domain_result list \<Rightarrow> (string \<times> string option) list" where
  "write_summaries timestamp results =
     (let summaries = map summary_line results
      in map (\<lambda>r. (path_join (outputDir r) (''summary_'' @ timestamp @ ''.txt''),
                    find (\<lambda>s. startsWith s (domain r)) summaries))
           results)"

section \<open>Example runs\<close>

text \<open>
  A site whose sitemap has one keyword entry and one phrase entry, the same site while
  the request fails, and two worlds built from them: one in which the first two passes
  fail, one in which every pass fails.
\<close>

definition example_body :: string where
  "example_body =
     ''<urlset><url><loc>https://x.com/plumbing-repair-nj.html</loc></url>''
     @ ''<url><loc>https://x.com/about-us</loc></url></urlset>''"

definition example_env :: attempt_env where
  "example_env =
     \<lparr>env_hostname = Inr ''x.com'',
      env_now = ''2024-01-02T03:04:05.678Z'',
      env_mkdir = None,
      env_get = Inr example_body,
      env_parse = Inr \<lparr>result_urlset = Some \<lparr>urlset_url = Some
        [\<lparr>entry_loc = Some [''https://x.com/plumbing-repair-nj.html'']\<rparr>,
         \<lparr>entry_loc = Some [''https://x.com/about-us'']\<rparr>]\<rparr>\<rparr>,
      env_write_keywords = None,
      env_write_phrases = None,
      env_random = 1 / 2,
      env_completions = (\<lambda>n. Inr [''An article.'']),
      env_write_article = None\<rparr>"

definition offline_env :: attempt_env where
  "offline_env = example_env\<lparr>env_get := Inl (ExternalError ''ECONNRESET'')\<rparr>"

definition flaky_world :: "nat \<Rightarrow> attempt_env" where
  "flaky_world n = (if n < 2 then offline_env else example_env)"

definition down_world :: "nat \<Rightarrow> attempt_env" where
  "down_world n = offline_env"

definition example_result :: domain_result where
  "example_result = \<lparr>domain = ''x.com'', outputDir = ''output/x.com_2024-01-02T03-04-05-678Z'',
         keywordCount = 1, phraseCount = 1, processedKeyword = ''Plumbing Repair NJ''\<rparr>"

definition example_events :: "nat \<Rightarrow> event list" where
  "example_events d =
  [Mkdir ''output/x.com_2024-01-02T03-04-05-678Z'',
   Get ''https://x.com/sitemap.xml'', Parse example_body,
   WriteFile
    ''output/x.com_2024-01-02T03-04-05-678Z/keywords_2024-01-02T03-04-05-678Z.txt''
    ''Plumbing Repair NJ'',
   WriteFile
    ''output/x.com_2024-01-02T03-04-05-678Z/phrases_2024-01-02T03-04-05-678Z.txt''
    ''About Us'',
   Sleep d, Complete ''Plumbing Repair NJ'',
   WriteFile
    ''output/x.com_2024-01-02T03-04-05-678Z/plumbing_repair_nj_2024-01-02T03-04-05-678Z.txt''
    ''An article.'']"

text \<open>
  The same site while every completion request fails, and a site that answers with a
  sitemap index, a document without a \<^verbatim>\<open>urlset\<close> root.
\<close>

definition quota_env :: attempt_env where
  "quota_env = example_env\<lparr>env_completions := (\<lambda>n. Inl (ExternalError ''429''))\<rparr>"

definition quota_world :: "nat \<Rightarrow> attempt_env" where
  "quota_world n = quota_env"

definition index_env :: attempt_env where
  "index_env = example_env\<lparr>env_get := Inr ''<sitemapindex/>'',
                           env_parse := Inr \<lparr>result_urlset = None\<rparr>\<rparr>"

definition index_world :: "nat \<Rightarrow> attempt_env" where
  "index_world n = index_env"

text \<open>
  Two results as the coordinator collects them when the unit of
  \<^verbatim>\<open>https://example.com.au/sitemap.xml\<close> finishes before the unit of
  \<^verbatim>\<open>https://example.com/sitemap.xml\<close>.
\<close>

definition result_au :: domain_result where
  "result_au = \<lparr>domain = ''example.com.au'',
                 outputDir = ''output/example.com.au_2024-01-02T03-04-05-678Z'',
                 keywordCount = 12, phraseCount = 40,
                 processedKeyword = ''Drain Cleaning NJ''\<rparr>"

definition result_com :: domain_result where
  "result_com = \<lparr>domain = ''example.com'',
                  outputDir = ''output/example.com_2024-01-02T03-04-06-100Z'',
                  keywordCount = 0, phraseCount = 3,
                  processedKeyword = ''None''\<rparr>"

section \<open>Properties of the classifier\<close>

lemma foldl_classify_step:
  "foldl classify_step a ps =
     a\<lparr>acc_keywords := acc_keywords a @ filter (\<lambda>p. endsWith p ''NJ'' \<and> isValidKeyword p) ps,
       acc_phrases := acc_phrases a @ filter (\<lambda>p. \<not> endsWith p ''NJ'' \<and> isValidKeyword p) ps\<rparr>"
  by (induction ps arbitrary: a) (simp_all add: classify_step_def)

lemma keywords_classify_all:
  "acc_keywords (classify_all locs) =
     filter (\<lambda>p. endsWith p ''NJ'' \<and> isValidKeyword p) (transformed_phrases locs)"
  by (simp add: classify_all_def foldl_classify_step)

lemma phrases_classify_all:
  "acc_phrases (classify_all locs) =
     filter (\<lambda>p. \<not> endsWith p ''NJ'' \<and> isValidKeyword p) (transformed_phrases locs)"
  by (simp add: classify_all_def foldl_classify_step)

lemma count_list_filter:
  "count_list (filter P xs) x = (if P x then count_list xs x else 0)"
  by (induction xs) auto

text \<open>
  Claim C1. Let \<open>url\<close> be an entry that passes the blog filter and whose transformed phrase
  is not empty and has at least two words. Then the phrase is among the keywords exactly
  when it ends with \<open>NJ\<close> and among the phrases exactly when it does not; every occurrence
  of it among the transformed phrases is kept, in one list or the other (the occurrences
  in the two lists add up to its occurrences among the transformed phrases, and there is at
  least one); and no string is in both lists.
\<close>

theorem accepted_phrase_in_exactly_one:
  assumes "url \<in> set locs" and "\<not> blog_test url"
    and "transform url \<noteq> []" and "isValidKeyword (transform url)"
  shows "(transform url \<in> set (acc_keywords (classify_all locs)) \<longleftrightarrow> endsWith (transform url) ''NJ'')
       \<and> (transform url \<in> set (acc_phrases (classify_all locs)) \<longleftrightarrow> \<not> endsWith (transform url) ''NJ'')
       \<and> count_list (acc_keywords (classify_all locs)) (transform url)
           + count_list (acc_phrases (classify_all locs)) (transform url)
         = count_list (transformed_phrases locs) (transform url)
       \<and> 0 < count_list (transformed_phrases locs) (transform url)
       \<and> set (acc_keywords (classify_all locs)) \<inter> set (acc_phrases (classify_all locs)) = {}"
proof -
  let ?p = "transform url"
  have mem: "?p \<in> set (transformed_phrases locs)"
    using assms(1-3) by (auto simp: transformed_phrases_def)
  have k: "?p \<in> set (acc_keywords (classify_all locs)) \<longleftrightarrow> endsWith ?p ''NJ''"
    using mem assms(4) by (auto simp: keywords_classify_all)
  have p: "?p \<in> set (acc_phrases (classify_all locs)) \<longleftrightarrow> \<not> endsWith ?p ''NJ''"
    using mem assms(4) by (auto simp: phrases_classify_all)
  have c: "count_list (acc_keywords (classify_all locs)) ?p
           + count_list (acc_phrases (classify_all locs)) ?p
         = count_list (transformed_phrases locs) ?p"
    using assms(4) by (simp add: keywords_classify_all phrases_classify_all count_list_filter)
  have pos: "0 < count_list (transformed_phrases locs) ?p"
    using mem count_list_0_iff [of "transformed_phrases locs" ?p] by fastforce
  have d: "set (acc_keywords (classify_all locs)) \<inter> set (acc_phrases (classify_all locs)) = {}"
    by (auto simp: keywords_classify_all phrases_classify_all)
  from k p c pos d show ?thesis by blast
qed

theorem accepted_phrase_in_exactly_one_witness:
  "transform ''https://x.com/plumbing-repair-nj.html'' = ''Plumbing Repair NJ''
   \<and> isValidKeyword ''Plumbing Repair NJ''
   \<and> ''Plumbing Repair NJ'' \<in> set (acc_keywords (classify_all
         [''https://x.com/about-us'', ''https://x.com/plumbing-repair-nj.html'']))
   \<and> ''Plumbing Repair NJ'' \<notin> set (acc_phrases (classify_all
         [''https://x.com/about-us'', ''https://x.com/plumbing-repair-nj.html'']))"
proof -
  let ?url = "''https://x.com/plumbing-repair-nj.html''"
  let ?locs = "[''https://x.com/about-us'', ?url]"
  have t: "transform ?url = ''Plumbing Repair NJ''" by code_simp
  have h1: "?url \<in> set ?locs" by simp
  have h2: "\<not> blog_test ?url" by code_simp
  have h3: "transform ?url \<noteq> []" by (simp add: t)
  have h4: "isValidKeyword (transform ?url)" unfolding t by code_simp
  have e: "endsWith (transform ?url) ''NJ''" unfolding t by code_simp
  show ?thesis
    using accepted_phrase_in_exactly_one [OF h1 h2 h3 h4] e h4 t by simp
qed

section \<open>The blog filter\<close>

lemma toLowerCase_blog: "toLowerCase ''blog'' = ''blog''" by code_simp

lemma blog_alternatives_lower:
  "map toLowerCase blog_alternatives = [''blog'', ''blogs'', ''blogging'', ''blog-post'', ''blog-posts'']"
  by code_simp

lemma sublist_blog_alt:
  "alt \<in> set [''blog'', ''blogs'', ''blogging'', ''blog-post'', ''blog-posts''] \<Longrightarrow> prefix ''blog'' alt"
  by auto

lemma blog_test_iff: "blog_test url \<longleftrightarrow> str_includes (toLowerCase url) ''blog''"
proof
  assume "blog_test url"
  then obtain alt where a: "alt \<in> set blog_alternatives" and m: "sublist (toLowerCase alt) (toLowerCase url)"
    by (auto simp: blog_test_def list_ex_iff matches_ci_def str_includes_def)
  from a have "toLowerCase alt \<in> set (map toLowerCase blog_alternatives)" by simp
  then have "prefix ''blog'' (toLowerCase alt)"
    unfolding blog_alternatives_lower by (rule sublist_blog_alt)
  then have "sublist ''blog'' (toLowerCase alt)" by (rule prefix_imp_sublist)
  with m show "str_includes (toLowerCase url) ''blog''"
    unfolding str_includes_def by (meson sublist_order.order_trans)
next
  assume "str_includes (toLowerCase url) ''blog''"
  then have "matches_ci ''blog'' url"
    by (simp add: matches_ci_def toLowerCase_blog)
  then show "blog_test url"
    by (auto simp: blog_test_def list_ex_iff blog_alternatives_def)
qed

lemma suffix_withoutDomain: "suffix (withoutDomain url) url"
proof -
  have d: "suffix (dropWhile P (drop n xs)) xs" for P n and xs :: string
    by (meson suffix_dropWhile suffix_drop suffix_order.order_trans)
  show ?thesis
    by (auto simp: withoutDomain_def after_scheme_def d split: option.splits if_splits)
qed

lemma blog_test_path: "blog_test (withoutDomain url) \<Longrightarrow> blog_test url"
proof -
  have "suffix (toLowerCase (withoutDomain url)) (toLowerCase url)"
    unfolding toLowerCase_def using suffix_withoutDomain by (rule map_mono_suffix)
  then have "sublist (toLowerCase (withoutDomain url)) (toLowerCase url)"
    by (rule suffix_imp_sublist)
  then have "str_includes (toLowerCase (withoutDomain url)) ''blog''
             \<Longrightarrow> str_includes (toLowerCase url) ''blog''"
    unfolding str_includes_def by (meson sublist_order.order_trans)
  then show "blog_test (withoutDomain url) \<Longrightarrow> blog_test url"
    by (simp add: blog_test_iff)
qed

lemma classify_rejects_blog: "blog_test url \<Longrightarrow> classify url = Rejected"
  by (simp add: classify_def classify_all_def transformed_phrases_def)

text \<open>
  Claim C2, as amended. The chain tests the whole \<^verbatim>\<open>loc\<close> string, scheme and host
  included, before anything is stripped from it: the entries that go on to the
  transformation are those whose string does not contain \<open>blog\<close> in any letter case (each
  of the five literals begins with it). So an entry is rejected at this step exactly when
  its string contains \<open>blog\<close>; in particular every entry whose path, the string left by
  \<^const>\<open>withoutDomain\<close>, contains one of the literals is rejected, and so is an entry whose
  host contains \<open>blog\<close>, whatever its path.
\<close>

theorem blog_test_whole_url:
  "transformed_phrases locs
     = filter (\<lambda>t. length t > 0)
         (map transform (filter (\<lambda>u. \<not> str_includes (toLowerCase u) ''blog'') locs))
   \<and> classify_all locs
     = classify_all (filter (\<lambda>u. \<not> str_includes (toLowerCase u) ''blog'') locs)
   \<and> (str_includes (toLowerCase url) ''blog'' \<longrightarrow>
        transformed_phrases [url] = [] \<and> classify url = Rejected)
   \<and> (\<not> str_includes (toLowerCase url) ''blog'' \<longrightarrow>
        transformed_phrases [url] = filter (\<lambda>t. length t > 0) [transform url])
   \<and> (blog_test (withoutDomain url) \<longrightarrow>
        transformed_phrases [url] = [] \<and> classify url = Rejected)"
proof -
  have f: "filter (\<lambda>u. \<not> blog_test u) ls
           = filter (\<lambda>u. \<not> str_includes (toLowerCase u) ''blog'') ls" for ls
    by (simp add: blog_test_iff)
  have a: "transformed_phrases ls
     = filter (\<lambda>t. length t > 0)
         (map transform (filter (\<lambda>u. \<not> str_includes (toLowerCase u) ''blog'') ls))" for ls
    by (simp add: transformed_phrases_def f)
  have i: "filter P (filter P ls) = filter P ls" for P and ls :: "string list"
    by simp
  have b: "classify_all locs
     = classify_all (filter (\<lambda>u. \<not> str_includes (toLowerCase u) ''blog'') locs)"
    unfolding classify_all_def a i ..
  have c: "transformed_phrases [url] = [] \<and> classify url = Rejected" if "blog_test url"
    using that by (simp add: classify_rejects_blog transformed_phrases_def)
  have d: "transformed_phrases [url] = filter (\<lambda>t. length t > 0) [transform url]"
    if "\<not> str_includes (toLowerCase url) ''blog''"
    using that by (simp add: a)
  from a b c d blog_test_path show ?thesis
    by (simp add: blog_test_iff)
qed

text \<open>
  The claim as stated fails: the rejection does not depend on the path alone. The two
  entries below have the same path, which contains none of the literals, and the same
  phrase, a keyword. The one whose host contains \<open>blog\<close> does not get past the filter and
  is rejected; the other is classified.
\<close>

theorem blog_test_host_counterexample:
  "\<not> blog_test (withoutDomain ''https://blog.x.com/plumbing-repair-nj'')
   \<and> withoutDomain ''https://blog.x.com/plumbing-repair-nj''
       = withoutDomain ''https://x.com/plumbing-repair-nj''
   \<and> transform ''https://blog.x.com/plumbing-repair-nj'' = ''Plumbing Repair NJ''
   \<and> transformed_phrases [''https://blog.x.com/plumbing-repair-nj''] = []
   \<and> classify ''https://blog.x.com/plumbing-repair-nj'' = Rejected
   \<and> transformed_phrases [''https://x.com/plumbing-repair-nj''] = [''Plumbing Repair NJ'']
   \<and> classify ''https://x.com/plumbing-repair-nj'' = Keyword ''Plumbing Repair NJ''"
  by code_simp

theorem blog_test_whole_url_witness:
  "blog_test (withoutDomain ''https://x.com/Blog-Posts/leak-repair-nj'')
   \<and> classify ''https://x.com/Blog-Posts/leak-repair-nj'' = Rejected
   \<and> str_includes (toLowerCase ''https://blog.x.com/plumbing-repair-nj'') ''blog''
   \<and> classify ''https://blog.x.com/plumbing-repair-nj'' = Rejected
   \<and> transformed_phrases [''https://x.com/plumbing-repair-nj'']
       = filter (\<lambda>t. length t > 0) [transform ''https://x.com/plumbing-repair-nj'']"
proof -
  have h1: "blog_test (withoutDomain ''https://x.com/Blog-Posts/leak-repair-nj'')"
    by code_simp
  have h2: "str_includes (toLowerCase ''https://blog.x.com/plumbing-repair-nj'') ''blog''"
    by code_simp
  have h3: "\<not> str_includes (toLowerCase ''https://x.com/plumbing-repair-nj'') ''blog''"
    by code_simp
  show ?thesis
    using blog_test_whole_url [of "[]" "''https://x.com/Blog-Posts/leak-repair-nj''"]
      blog_test_whole_url [of "[]" "''https://blog.x.com/plumbing-repair-nj''"]
      blog_test_whole_url [of "[]" "''https://x.com/plumbing-repair-nj''"]
      h1 h2 h3 by blast
qed

section \<open>The transformation and its two wordings\<close>

















section \<open>The retry loop of \<^verbatim>\<open>processSitemap\<close>\<close>

lemma loop_done: "maxRetries \<le> a \<Longrightarrow> processSitemap_loop d u w a = (Inr None, [])"
  by (subst processSitemap_loop.simps) simp

lemma loop_success:
  "a < maxRetries \<Longrightarrow> attempt d u (w a) = (Inr r, ev) \<Longrightarrow>
   processSitemap_loop d u w a = (Inr (Some r), ev)"
  by (subst processSitemap_loop.simps) simp

lemma loop_fail_last:
  "a + 1 = maxRetries \<Longrightarrow> attempt d u (w a) = (Inl e, ev) \<Longrightarrow>
   processSitemap_loop d u w a = (Inl e, ev)"
  by (subst processSitemap_loop.simps) auto

lemma loop_fail_retry:
  "b = a + 1 \<Longrightarrow> b < maxRetries \<Longrightarrow> attempt d u (w a) = (Inl e, ev) \<Longrightarrow>
   processSitemap_loop d u w b = (r, ev') \<Longrightarrow>
   processSitemap_loop d u w a = (r, ev @ [Sleep (d * b)] @ ev')"
  by (subst processSitemap_loop.simps) (auto split: prod.splits)

lemma two_failures_then_success:
  assumes "attempt d u (w 0) = (Inl e0, ev0)" and "attempt d u (w 1) = (Inl e1, ev1)"
    and "attempt d u (w 2) = (Inr r, ev2)"
  shows "processSitemap d u w
         = (Inr (Some r), ev0 @ [Sleep (d * 1)] @ ev1 @ [Sleep (d * 2)] @ ev2)"
proof -
  have l2: "processSitemap_loop d u w 2 = (Inr (Some r), ev2)"
  proof (rule loop_success)
    show "2 < maxRetries" by (simp add: maxRetries_def)
    show "attempt d u (w 2) = (Inr r, ev2)" by (rule assms(3))
  qed
  have l1: "processSitemap_loop d u w 1 = (Inr (Some r), ev1 @ [Sleep (d * 2)] @ ev2)"
  proof (rule loop_fail_retry)
    show "(2::nat) = 1 + 1" by simp
    show "2 < maxRetries" by (simp add: maxRetries_def)
    show "attempt d u (w 1) = (Inl e1, ev1)" by (rule assms(2))
    show "processSitemap_loop d u w 2 = (Inr (Some r), ev2)" by (rule l2)
  qed
  have l0: "processSitemap_loop d u w 0
            = (Inr (Some r), ev0 @ [Sleep (d * 1)] @ ev1 @ [Sleep (d * 2)] @ ev2)"
  proof (rule loop_fail_retry)
    show "(1::nat) = 0 + 1" by simp
    show "1 < maxRetries" by (simp add: maxRetries_def)
    show "attempt d u (w 0) = (Inl e0, ev0)" by (rule assms(1))
    show "processSitemap_loop d u w 1 = (Inr (Some r), ev1 @ [Sleep (d * 2)] @ ev2)" by (rule l1)
  qed
  then show ?thesis by (simp add: processSitemap_def)
qed

lemma three_failures:
  assumes "attempt d u (w 0) = (Inl e0, ev0)" and "attempt d u (w 1) = (Inl e1, ev1)"
    and "attempt d u (w 2) = (Inl e2, ev2)"
  shows "processSitemap d u w = (Inl e2, ev0 @ [Sleep (d * 1)] @ ev1 @ [Sleep (d * 2)] @ ev2)"
proof -
  have l2: "processSitemap_loop d u w 2 = (Inl e2, ev2)"
  proof (rule loop_fail_last)
    show "2 + 1 = maxRetries" by (simp add: maxRetries_def)
    show "attempt d u (w 2) = (Inl e2, ev2)" by (rule assms(3))
  qed
  have l1: "processSitemap_loop d u w 1 = (Inl e2, ev1 @ [Sleep (d * 2)] @ ev2)"
  proof (rule loop_fail_retry)
    show "(2::nat) = 1 + 1" by simp
    show "2 < maxRetries" by (simp add: maxRetries_def)
    show "attempt d u (w 1) = (Inl e1, ev1)" by (rule assms(2))
    show "processSitemap_loop d u w 2 = (Inl e2, ev2)" by (rule l2)
  qed
  have l0: "processSitemap_loop d u w 0
            = (Inl e2, ev0 @ [Sleep (d * 1)] @ ev1 @ [Sleep (d * 2)] @ ev2)"
  proof (rule loop_fail_retry)
    show "(1::nat) = 0 + 1" by simp
    show "1 < maxRetries" by (simp add: maxRetries_def)
    show "attempt d u (w 0) = (Inl e0, ev0)" by (rule assms(1))
    show "processSitemap_loop d u w 1 = (Inl e2, ev1 @ [Sleep (d * 2)] @ ev2)" by (rule l1)
  qed
  then show ?thesis by (simp add: processSitemap_def)
qed

text \<open>
  Claim C4. The whole pass is retried on any failure, at most three passes in all. When
  the first two passes fail and the third returns a result, \<^verbatim>\<open>processSitemap\<close> returns
  that result, a success; when all three fail, it throws the error of the third, a failure,
  and no fourth pass is made. Between a failed pass and the next the loop sleeps the delay
  times the number of failed passes: once the delay, then twice the delay.
\<close>

theorem processSitemap_retries:
  "(attempt d u (w 0) = (Inl e0, ev0) \<and> attempt d u (w 1) = (Inl e1, ev1)
      \<and> attempt d u (w 2) = (Inr r, ev2)
    \<longrightarrow> processSitemap d u w = (Inr (Some r), ev0 @ [Sleep (d * 1)] @ ev1 @ [Sleep (d * 2)] @ ev2)
        \<and> outcome_of (processSitemap d u w) = Success r)
   \<and> (attempt d u (w' 0) = (Inl e0', ev0') \<and> attempt d u (w' 1) = (Inl e1', ev1')
      \<and> attempt d u (w' 2) = (Inl e2', ev2')
    \<longrightarrow> processSitemap d u w' = (Inl e2', ev0' @ [Sleep (d * 1)] @ ev1' @ [Sleep (d * 2)] @ ev2')
        \<and> outcome_of (processSitemap d u w') = Failure e2')"
proof (intro conjI impI)
  assume a: "attempt d u (w 0) = (Inl e0, ev0) \<and> attempt d u (w 1) = (Inl e1, ev1)
      \<and> attempt d u (w 2) = (Inr r, ev2)"
  then show "processSitemap d u w
             = (Inr (Some r), ev0 @ [Sleep (d * 1)] @ ev1 @ [Sleep (d * 2)] @ ev2)"
    by (intro two_failures_then_success) simp_all
  then show "outcome_of (processSitemap d u w) = Success r"
    by (simp add: outcome_of_def)
next
  assume a: "attempt d u (w' 0) = (Inl e0', ev0') \<and> attempt d u (w' 1) = (Inl e1', ev1')
      \<and> attempt d u (w' 2) = (Inl e2', ev2')"
  then show "processSitemap d u w'
             = (Inl e2', ev0' @ [Sleep (d * 1)] @ ev1' @ [Sleep (d * 2)] @ ev2')"
    by (intro three_failures) simp_all
  then show "outcome_of (processSitemap d u w') = Failure e2'"
    by (simp add: outcome_of_def)
qed

theorem processSitemap_retries_witness:
  "processSitemap 5 ''https://x.com/sitemap.xml'' flaky_world
     = (Inr (Some example_result),
        [Mkdir ''output/x.com_2024-01-02T03-04-05-678Z'', Get ''https://x.com/sitemap.xml'',
         Sleep 5,
         Mkdir ''output/x.com_2024-01-02T03-04-05-678Z'', Get ''https://x.com/sitemap.xml'',
         Sleep 10] @ example_events 5)
   \<and> outcome_of (processSitemap 5 ''https://x.com/sitemap.xml'' down_world)
     = Failure (ExternalError ''ECONNRESET'')"
proof -
  let ?u = "''https://x.com/sitemap.xml''"
  let ?off = "[Mkdir ''output/x.com_2024-01-02T03-04-05-678Z'', Get ?u]"
  have off: "attempt 5 ?u offline_env = (Inl (ExternalError ''ECONNRESET''), ?off)"
    by code_simp
  have ok: "attempt 5 ?u example_env = (Inr example_result, example_events 5)"
    by code_simp
  have f: "flaky_world 0 = offline_env" "flaky_world 1 = offline_env" "flaky_world 2 = example_env"
    by (simp_all add: flaky_world_def)
  have g: "down_world n = offline_env" for n
    by (simp add: down_world_def)
  show ?thesis
    using processSitemap_retries [of 5 ?u flaky_world "ExternalError ''ECONNRESET''" ?off
        "ExternalError ''ECONNRESET''" ?off example_result "example_events 5" down_world
        "ExternalError ''ECONNRESET''" ?off
        "ExternalError ''ECONNRESET''" ?off "ExternalError ''ECONNRESET''" ?off]
      off ok
    unfolding f g by (simp add: outcome_of_def)
qed

section \<open>Results of \<^verbatim>\<open>processSitemap\<close>\<close>

lemma pick_mem: "pick r ks = Some k \<Longrightarrow> k \<in> set ks"
proof -
  assume p: "pick r ks = Some k"
  define i where "i = \<lfloor>r * of_nat (length ks)\<rfloor>"
  from p have "0 \<le> i" and "i < int (length ks)" and "k = ks ! nat i"
    by (auto simp: pick_def Let_def i_def split: if_splits)
  then have "nat i < length ks" by linarith
  with \<open>k = ks ! nat i\<close> show ?thesis by simp
qed

lemma article_step_success:
  assumes "article_step d dir ts ks env = (Inr k, ev)"
  shows "pick (env_random env) ks = Some k
       \<and> (\<exists>text. fst (generateArticle d (env_completions env) k) = Inr (Some text))
       \<and> env_write_article env = None"
  using assms
  by (auto simp: article_step_def split: option.splits prod.splits sum.splits)

lemma attempt_success:
  assumes "attempt d u env = (Inr r, ev)"
  shows "keywordCount r = length (attempt_keywords u env)
       \<and> (if attempt_keywords u env = [] then processedKeyword r = ''None''
          else pick (env_random env) (attempt_keywords u env) = Some (processedKeyword r)
             \<and> (\<exists>text. fst (generateArticle d (env_completions env) (processedKeyword r))
                         = Inr (Some text)))"
proof -
  from assms obtain host where h: "env_hostname env = Inr host"
    by (auto simp: attempt_def split: sum.splits)
  from assms h have m: "env_mkdir env = None"
    by (auto simp: attempt_def Let_def split: option.splits)
  from assms h m obtain locs ev1 where f: "fetch_locs u env = (Inr locs, ev1)"
    by (auto simp: attempt_def Let_def split: prod.splits sum.splits)
  have k: "attempt_keywords u env = acc_keywords (classify_all locs)"
    by (simp add: attempt_keywords_def f)
  show ?thesis
  proof (cases "acc_keywords (classify_all locs) = []")
    case True
    with assms h m f show ?thesis
      by (auto simp: attempt_def Let_def k split: prod.splits option.splits)
  next
    case False
    with assms h m f obtain dir ts ev3 where
      a: "article_step d dir ts (acc_keywords (classify_all locs)) env = (Inr (processedKeyword r), ev3)"
      and c: "keywordCount r = length (acc_keywords (classify_all locs))"
      by (auto simp: attempt_def Let_def split: prod.splits option.splits sum.splits)
    from article_step_success [OF a] c False show ?thesis
      by (simp add: k)
  qed
qed

lemma processSitemap_success:
  assumes "fst (processSitemap d u w) = Inr (Some r)"
  shows "\<exists>i<maxRetries. fst (attempt d u (w i)) = Inr r"
proof -
  have step: "fst (processSitemap_loop d u w a) = Inr (Some r) \<Longrightarrow>
              \<exists>i<maxRetries. fst (attempt d u (w i)) = Inr r" for a
  proof (induction d u w a rule: processSitemap_loop.induct)
    case (1 delay sitemapUrl world attempts)
    show ?case
    proof (cases "attempts < maxRetries")
      case False
      with "1.prems" show ?thesis
        by (subst (asm) processSitemap_loop.simps) simp
    next
      case lt: True
      obtain res ev where at: "attempt delay sitemapUrl (world attempts) = (res, ev)"
        by (cases "attempt delay sitemapUrl (world attempts)")
      show ?thesis
      proof (cases res)
        case (Inr r')
        with "1.prems" lt at have "r' = r"
          by (subst (asm) processSitemap_loop.simps) simp
        with Inr at lt show ?thesis by (intro exI [of _ attempts]) simp
      next
        case (Inl e)
        show ?thesis
        proof (cases "attempts + 1 = maxRetries")
          case True
          with "1.prems" lt at Inl show ?thesis
            by (subst (asm) processSitemap_loop.simps) simp
        next
          case False
          with "1.prems" lt at Inl
          have "fst (processSitemap_loop delay sitemapUrl world (attempts + 1)) = Inr (Some r)"
            by (subst (asm) processSitemap_loop.simps) (simp split: prod.splits)
          with "1.IH" [OF lt at [symmetric] _ False] Inl show ?thesis by simp
        qed
      qed
    qed
  qed
  from assms show ?thesis unfolding processSitemap_def by (rule step)
qed

lemma keywords_shape:
  "k \<in> set (acc_keywords (classify_all locs)) \<Longrightarrow> endsWith k ''NJ'' \<and> isValidKeyword k"
  by (simp add: keywords_classify_all)

lemma attempt_keywords_shape:
  "k \<in> set (attempt_keywords u env) \<Longrightarrow> endsWith k ''NJ'' \<and> isValidKeyword k"
  by (auto simp: attempt_keywords_def keywords_shape split: sum.splits)

lemma None_not_NJ: "\<not> endsWith ''None'' ''NJ''"
  by code_simp

lemma loop_not_undefined:
  "a < maxRetries \<Longrightarrow> fst (processSitemap_loop d u w a) \<noteq> Inr None"
proof (induction d u w a rule: processSitemap_loop.induct)
  case (1 delay sitemapUrl world attempts)
  obtain res ev where at: "attempt delay sitemapUrl (world attempts) = (res, ev)"
    by (cases "attempt delay sitemapUrl (world attempts)")
  show ?case
  proof (cases res)
    case (Inr r)
    with at "1.prems" show ?thesis
      by (subst processSitemap_loop.simps) simp
  next
    case (Inl e)
    show ?thesis
    proof (cases "attempts + 1 = maxRetries")
      case True
      with at Inl "1.prems" show ?thesis
        by (subst processSitemap_loop.simps) simp
    next
      case False
      with "1.prems" have lt: "attempts + 1 < maxRetries" by simp
      from "1.IH" [OF "1.prems" at [symmetric] _ False lt] Inl
      have "fst (processSitemap_loop delay sitemapUrl world (attempts + 1)) \<noteq> Inr None"
        by simp
      with at Inl "1.prems" False show ?thesis
        by (subst processSitemap_loop.simps) (auto split: prod.splits)
    qed
  qed
qed

lemma outcome_cases:
  "(\<exists>r. outcome_of (processSitemap d u w) = Success r)
   \<or> (\<exists>e. outcome_of (processSitemap d u w) = Failure e)"
proof -
  have "fst (processSitemap d u w) \<noteq> Inr None"
    unfolding processSitemap_def by (rule loop_not_undefined) (simp add: maxRetries_def)
  then show ?thesis
    by (auto simp: outcome_of_def split: sum.splits option.splits)
qed

lemma outcome_Success: "outcome_of p = Success r \<longleftrightarrow> fst p = Inr (Some r)"
  by (auto simp: outcome_of_def split: sum.splits option.splits)

text \<open>
  Claim C5. When \<^verbatim>\<open>processSitemap\<close> returns a result, it is the result of one of the at
  most three passes, and for the \<^verbatim>\<open>keywords\<close> array of that pass: \<^verbatim>\<open>processedKeyword\<close>
  is \<open>None\<close> exactly when the array is empty (and \<^verbatim>\<open>keywordCount\<close> is its length); when it
  is not empty, \<^verbatim>\<open>processedKeyword\<close> is one of its elements and the article for it was
  generated in that pass. A failing article generation never yields a success with
  \<open>None\<close>: when in every pass the array is not empty and article generation fails, the
  unit ends in a failure.
\<close>

theorem processedKeyword_None_iff:
  "(outcome_of (processSitemap d u w) = Success r \<longrightarrow>
      (\<exists>i<maxRetries. fst (attempt d u (w i)) = Inr r
         \<and> keywordCount r = length (attempt_keywords u (w i))
         \<and> (processedKeyword r = ''None'' \<longleftrightarrow> attempt_keywords u (w i) = [])
         \<and> (attempt_keywords u (w i) \<noteq> [] \<longrightarrow>
              processedKeyword r \<in> set (attempt_keywords u (w i))
              \<and> (\<exists>text. fst (generateArticle d (env_completions (w i)) (processedKeyword r))
                          = Inr (Some text)))))
   \<and> ((\<forall>i<maxRetries. attempt_keywords u (w' i) \<noteq> []
          \<and> (\<forall>k. \<exists>e. fst (generateArticle d (env_completions (w' i)) k) = Inl e))
       \<longrightarrow> (\<exists>e. outcome_of (processSitemap d u w') = Failure e))"
proof -
  have main: "\<exists>i<maxRetries. fst (attempt d u (v i)) = Inr r
         \<and> keywordCount r = length (attempt_keywords u (v i))
         \<and> (processedKeyword r = ''None'' \<longleftrightarrow> attempt_keywords u (v i) = [])
         \<and> (attempt_keywords u (v i) \<noteq> [] \<longrightarrow>
              processedKeyword r \<in> set (attempt_keywords u (v i))
              \<and> (\<exists>text. fst (generateArticle d (env_completions (v i)) (processedKeyword r))
                          = Inr (Some text)))"
    if s: "outcome_of (processSitemap d u v) = Success r" for v r
  proof -
    from s have "fst (processSitemap d u v) = Inr (Some r)" by (simp add: outcome_Success)
    then obtain i where i: "i < maxRetries" and a: "fst (attempt d u (v i)) = Inr r"
      using processSitemap_success by blast
    then obtain ev where "attempt d u (v i) = (Inr r, ev)"
      by (cases "attempt d u (v i)") simp
    note f = attempt_success [OF this]
    let ?ks = "attempt_keywords u (v i)"
    have c: "keywordCount r = length ?ks" using f by simp
    have n: "processedKeyword r = ''None'' \<longleftrightarrow> ?ks = []"
    proof
      assume pn: "processedKeyword r = ''None''"
      show "?ks = []"
      proof (rule ccontr)
        assume ne: "?ks \<noteq> []"
        with f have "pick (env_random (v i)) ?ks = Some (processedKeyword r)" by simp
        then have "processedKeyword r \<in> set ?ks" by (rule pick_mem)
        then have "endsWith (processedKeyword r) ''NJ''"
          using attempt_keywords_shape by blast
        with pn None_not_NJ show False by simp
      qed
    next
      assume "?ks = []"
      with f show "processedKeyword r = ''None''" by simp
    qed
    have g: "?ks \<noteq> [] \<longrightarrow> processedKeyword r \<in> set ?ks
              \<and> (\<exists>text. fst (generateArticle d (env_completions (v i)) (processedKeyword r))
                          = Inr (Some text))"
      using f pick_mem by auto
    from i a c n g show ?thesis by blast
  qed
  have fail: "\<exists>e. outcome_of (processSitemap d u w') = Failure e"
    if h: "\<forall>i<maxRetries. attempt_keywords u (w' i) \<noteq> []
          \<and> (\<forall>k. \<exists>e. fst (generateArticle d (env_completions (w' i)) k) = Inl e)"
  proof (rule ccontr)
    assume "\<not> ?thesis"
    with outcome_cases [of d u w'] obtain r' where "outcome_of (processSitemap d u w') = Success r'"
      by blast
    from main [OF this] obtain i art where "i < maxRetries"
      and "attempt_keywords u (w' i) \<noteq> [] \<longrightarrow>
           fst (generateArticle d (env_completions (w' i)) (processedKeyword r')) = Inr (Some art)"
      by blast
    moreover from h \<open>i < maxRetries\<close> obtain e where "attempt_keywords u (w' i) \<noteq> []"
      and "fst (generateArticle d (env_completions (w' i)) (processedKeyword r')) = Inl e"
      by blast
    ultimately show False by simp
  qed
  from main fail show ?thesis by blast
qed

text \<open>
  Claim C10. When \<^verbatim>\<open>processSitemap\<close> returns a result, \<^verbatim>\<open>processedKeyword\<close> is \<open>None\<close> or
  an element of the \<^verbatim>\<open>keywords\<close> array of the pass that returned it; every element of
  that array ends with \<open>NJ\<close>, has at least two words and differs from \<open>None\<close>.
\<close>

theorem processedKeyword_sentinel_or_keyword:
  assumes "outcome_of (processSitemap d u w) = Success r"
  shows "\<exists>i<maxRetries. fst (attempt d u (w i)) = Inr r
       \<and> (processedKeyword r = ''None'' \<or> processedKeyword r \<in> set (attempt_keywords u (w i)))
       \<and> (\<forall>k \<in> set (attempt_keywords u (w i)).
             endsWith k ''NJ'' \<and> isValidKeyword k \<and> k \<noteq> ''None'')"
proof -
  from assms have "fst (processSitemap d u w) = Inr (Some r)" by (simp add: outcome_Success)
  then obtain i where i: "i < maxRetries" and a: "fst (attempt d u (w i)) = Inr r"
    using processSitemap_success by blast
  then obtain ev where "attempt d u (w i) = (Inr r, ev)"
    by (cases "attempt d u (w i)") simp
  note f = attempt_success [OF this]
  have m: "processedKeyword r = ''None'' \<or> processedKeyword r \<in> set (attempt_keywords u (w i))"
    using f pick_mem by (cases "attempt_keywords u (w i) = []") auto
  have s: "\<forall>k \<in> set (attempt_keywords u (w i)).
             endsWith k ''NJ'' \<and> isValidKeyword k \<and> k \<noteq> ''None''"
    using attempt_keywords_shape None_not_NJ by blast
  from i a m s show ?thesis by blast
qed


lemma generate_fail_last:
  "a + 1 = maxRetries \<Longrightarrow> completion_content (create a) = Inl e \<Longrightarrow>
   generateArticle_loop d create k a = (Inl e, [Sleep d, Complete k])"
  by (subst generateArticle_loop.simps) auto

lemma generate_fail_retry:
  "b = a + 1 \<Longrightarrow> b < maxRetries \<Longrightarrow> completion_content (create a) = Inl e \<Longrightarrow>
   generateArticle_loop d create k b = (r, ev) \<Longrightarrow>
   generateArticle_loop d create k a = (r, [Sleep d, Complete k, Sleep (d * b)] @ ev)"
  by (subst generateArticle_loop.simps) (auto split: prod.splits)

lemma generateArticle_exhausted:
  assumes "\<forall>j<maxRetries. completion_content (create j) = Inl (errs j)"
  shows "generateArticle d create k =
           (Inl (errs 2),
            [Sleep d, Complete k, Sleep (d * 1), Sleep d, Complete k, Sleep (d * 2),
             Sleep d, Complete k])"
proof -
  have c: "completion_content (create j) = Inl (errs j)" if "j < 3" for j
    using assms that by (simp add: maxRetries_def)
  have l2: "generateArticle_loop d create k 2 = (Inl (errs 2), [Sleep d, Complete k])"
  proof (rule generate_fail_last)
    show "2 + 1 = maxRetries" by (simp add: maxRetries_def)
    show "completion_content (create 2) = Inl (errs 2)" by (rule c) simp
  qed
  have l1: "generateArticle_loop d create k 1
            = (Inl (errs 2), [Sleep d, Complete k, Sleep (d * 2)] @ [Sleep d, Complete k])"
  proof (rule generate_fail_retry)
    show "(2::nat) = 1 + 1" by simp
    show "2 < maxRetries" by (simp add: maxRetries_def)
    show "completion_content (create 1) = Inl (errs 1)" by (rule c) simp
    show "generateArticle_loop d create k 2 = (Inl (errs 2), [Sleep d, Complete k])" by (rule l2)
  qed
  have l0: "generateArticle_loop d create k 0
            = (Inl (errs 2), [Sleep d, Complete k, Sleep (d * 1)]
                 @ [Sleep d, Complete k, Sleep (d * 2)] @ [Sleep d, Complete k])"
  proof (rule generate_fail_retry)
    show "(1::nat) = 0 + 1" by simp
    show "1 < maxRetries" by (simp add: maxRetries_def)
    show "completion_content (create 0) = Inl (errs 0)" by (rule c) simp
    show "generateArticle_loop d create k 1
            = (Inl (errs 2), [Sleep d, Complete k, Sleep (d * 2)] @ [Sleep d, Complete k])"
      by (rule l1)
  qed
  then show ?thesis by (simp add: generateArticle_def)
qed

lemma article_step_exhausted:
  assumes "\<forall>j<maxRetries. completion_content (env_completions env j) = Inl (errs j)"
  shows "fst (article_step d dir ts ks env) = Inl (errs 2)"
  by (simp add: article_step_def generateArticle_exhausted [OF assms] split: option.splits)

lemma loop_starts_with_attempt:
  "a < maxRetries \<Longrightarrow> prefix (snd (attempt d u (w a))) (snd (processSitemap_loop d u w a))"
  by (subst processSitemap_loop.simps) (auto split: prod.splits sum.splits)

lemma attempt_starts_with_fetch:
  assumes "env_hostname env = Inr host" and "env_mkdir env = None"
  shows "prefix [Mkdir (path_join ''output'' (host @ ''_'' @ getTimestamp (env_now env))), Get u]
           (snd (attempt d u env))"
proof -
  have "prefix [Get u] (snd (fetch_locs u env))"
    by (auto simp: fetch_locs_def split: sum.splits)
  then obtain rest where r: "snd (fetch_locs u env) = Get u # rest"
    by (auto simp: prefix_def)
  show ?thesis
    using assms r
    by (auto simp: attempt_def Let_def split: prod.splits sum.splits option.splits)
qed

text \<open>
  Claim C6. Let a pass that is not the last get as far as article generation (host name,
  directory, request, parser and both list files succeed, and there is a keyword), and
  let all three completion requests fail. Then \<^verbatim>\<open>generateArticle\<close> throws the third
  error, the pass fails with it, and the loop of \<^verbatim>\<open>processSitemap\<close> goes on, after its
  sleep, with the whole next pass from its first step: the events of the next pass follow,
  and they begin with the directory and the request, not with a completion request.
\<close>

theorem article_failure_retries_whole_pass:
  assumes "a + 1 < maxRetries"
    and "env_hostname (w a) = Inr host" and "env_mkdir (w a) = None"
    and "fst (fetch_locs u (w a)) = Inr locs"
    and "env_write_keywords (w a) = None" and "env_write_phrases (w a) = None"
    and "acc_keywords (classify_all locs) \<noteq> []"
    and "\<forall>j<maxRetries. completion_content (env_completions (w a) j) = Inl (errs j)"
    and "env_hostname (w (a + 1)) = Inr host'" and "env_mkdir (w (a + 1)) = None"
  shows "fst (generateArticle d (env_completions (w a)) k) = Inl (errs 2)
       \<and> fst (attempt d u (w a)) = Inl (errs 2)
       \<and> processSitemap_loop d u w a =
           (fst (processSitemap_loop d u w (a + 1)),
            snd (attempt d u (w a)) @ [Sleep (d * (a + 1))]
              @ snd (processSitemap_loop d u w (a + 1)))
       \<and> prefix (snd (attempt d u (w (a + 1)))) (snd (processSitemap_loop d u w (a + 1)))
       \<and> prefix [Mkdir (path_join ''output''
                          (host' @ ''_'' @ getTimestamp (env_now (w (a + 1))))), Get u]
           (snd (attempt d u (w (a + 1))))"
proof -
  note ex = assms(8)
  have g: "fst (generateArticle d (env_completions (w a)) k) = Inl (errs 2)"
    by (simp add: generateArticle_exhausted [OF ex])
  obtain ev1 where f: "fetch_locs u (w a) = (Inr locs, ev1)"
    using assms(4) by (cases "fetch_locs u (w a)") simp
  have wl: "\<exists>ev2. write_lists dir ts acc0 (w a) = (None, ev2)" for dir ts acc0
    using assms(5,6) by (simp add: write_lists_def)
  have as: "\<exists>ev3. article_step d dir ts ks (w a) = (Inl (errs 2), ev3)" for dir ts ks
    using article_step_exhausted [OF ex, of d dir ts ks]
    by (cases "article_step d dir ts ks (w a)") simp
  let ?ts = "getTimestamp (env_now (w a))"
  let ?dir = "path_join ''output'' (host @ ''_'' @ ?ts)"
  obtain ev2 where wl': "write_lists ?dir ?ts (classify_all locs) (w a) = (None, ev2)"
    using wl by blast
  obtain ev3 where as': "article_step d ?dir ?ts (acc_keywords (classify_all locs)) (w a)
      = (Inl (errs 2), ev3)"
    using as by blast
  have at: "fst (attempt d u (w a)) = Inl (errs 2)"
    using assms(7) wl' as' by (simp add: attempt_def Let_def assms(2,3) f)
  then obtain ev where at': "attempt d u (w a) = (Inl (errs 2), ev)"
    by (cases "attempt d u (w a)") simp
  have lp: "processSitemap_loop d u w a =
           (fst (processSitemap_loop d u w (a + 1)),
            snd (attempt d u (w a)) @ [Sleep (d * (a + 1))]
              @ snd (processSitemap_loop d u w (a + 1)))"
    unfolding at' snd_conv
  proof (rule loop_fail_retry)
    show "a + 1 = a + 1" ..
    show "a + 1 < maxRetries" by (rule assms(1))
    show "attempt d u (w a) = (Inl (errs 2), ev)" by (rule at')
    show "processSitemap_loop d u w (a + 1)
          = (fst (processSitemap_loop d u w (a + 1)), snd (processSitemap_loop d u w (a + 1)))"
      by simp
  qed
  have p1: "prefix (snd (attempt d u (w (a + 1)))) (snd (processSitemap_loop d u w (a + 1)))"
    by (rule loop_starts_with_attempt [OF assms(1)])
  have p2: "prefix [Mkdir (path_join ''output''
                          (host' @ ''_'' @ getTimestamp (env_now (w (a + 1))))), Get u]
           (snd (attempt d u (w (a + 1))))"
    by (rule attempt_starts_with_fetch [OF assms(9,10)])
  from g at lp p1 p2 show ?thesis by blast
qed


lemma entries_of_lacking: "lacks_entries res \<Longrightarrow> \<exists>m. entries_of res = Inl (TypeError m)"
  by (auto simp: lacks_entries_def entries_of_def split: option.splits)

lemma attempt_lacking:
  assumes "env_parse env = Inr res" and "lacks_entries res"
  shows "\<exists>e. fst (attempt d u env) = Inl e"
proof -
  obtain m where "entries_of res = Inl (TypeError m)"
    using entries_of_lacking [OF assms(2)] by blast
  with assms(1) have "\<exists>e ev. fetch_locs u env = (Inl e, ev)"
    by (auto simp: fetch_locs_def split: sum.splits)
  then show ?thesis
    by (auto simp: attempt_def Let_def split: sum.splits option.splits)
qed

lemma attempt_lacking_events:
  assumes "env_hostname env = Inr host" and "env_mkdir env = None" and "env_get env = Inr body"
    and "env_parse env = Inr res" and "lacks_entries res"
  shows "\<exists>m. attempt d u env =
           (Inl (TypeError m),
            [Mkdir (path_join ''output'' (host @ ''_'' @ getTimestamp (env_now env))),
             Get u, Parse body])"
proof -
  obtain m where "entries_of res = Inl (TypeError m)"
    using entries_of_lacking [OF assms(5)] by blast
  with assms(3,4) have "fetch_locs u env = (Inl (TypeError m), [Get u, Parse body])"
    by (simp add: fetch_locs_def)
  then show ?thesis
    using assms(1,2) by (simp add: attempt_def Let_def)
qed

text \<open>
  Claim C9. When in each of the three passes the parser returns a document without a
  \<^verbatim>\<open>urlset\<close> root or without \<^verbatim>\<open>url\<close> entries, every pass fails and the unit ends in a
  failure, not in a success with empty lists. When host name, directory and request
  succeed each time, the error is the \<open>TypeError\<close> of the access, and the run is three
  passes of directory, request and parser with the two sleeps between them.
\<close>

theorem missing_entries_fail:
  assumes "\<forall>i<maxRetries. \<exists>res. env_parse (w i) = Inr res \<and> lacks_entries res"
  shows "(\<forall>i<maxRetries. \<exists>e. fst (attempt d u (w i)) = Inl e)
       \<and> (\<exists>e. outcome_of (processSitemap d u w) = Failure e)
       \<and> ((\<forall>i<maxRetries. env_hostname (w i) = Inr (hosts i) \<and> env_mkdir (w i) = None
                \<and> env_get (w i) = Inr (bodies i))
          \<longrightarrow> (\<exists>m. processSitemap d u w =
                 (Inl (TypeError m),
                  [Mkdir (path_join ''output'' (hosts 0 @ ''_'' @ getTimestamp (env_now (w 0)))),
                   Get u, Parse (bodies 0), Sleep (d * 1),
                   Mkdir (path_join ''output'' (hosts 1 @ ''_'' @ getTimestamp (env_now (w 1)))),
                   Get u, Parse (bodies 1), Sleep (d * 2),
                   Mkdir (path_join ''output'' (hosts 2 @ ''_'' @ getTimestamp (env_now (w 2)))),
                   Get u, Parse (bodies 2)])))"
proof -
  have a: "\<forall>i<maxRetries. \<exists>e. fst (attempt d u (w i)) = Inl e"
    using assms attempt_lacking by blast
  have b: "\<exists>e. outcome_of (processSitemap d u w) = Failure e"
  proof (rule ccontr)
    assume "\<not> ?thesis"
    with outcome_cases [of d u w] obtain r where "outcome_of (processSitemap d u w) = Success r"
      by blast
    then have "fst (processSitemap d u w) = Inr (Some r)" by (simp add: outcome_Success)
    then obtain i where "i < maxRetries" and "fst (attempt d u (w i)) = Inr r"
      using processSitemap_success by blast
    with a show False by fastforce
  qed
  have c: "\<exists>m. processSitemap d u w =
                 (Inl (TypeError m),
                  [Mkdir (path_join ''output'' (hosts 0 @ ''_'' @ getTimestamp (env_now (w 0)))),
                   Get u, Parse (bodies 0), Sleep (d * 1),
                   Mkdir (path_join ''output'' (hosts 1 @ ''_'' @ getTimestamp (env_now (w 1)))),
                   Get u, Parse (bodies 1), Sleep (d * 2),
                   Mkdir (path_join ''output'' (hosts 2 @ ''_'' @ getTimestamp (env_now (w 2)))),
                   Get u, Parse (bodies 2)])"
    if h: "\<forall>i<maxRetries. env_hostname (w i) = Inr (hosts i) \<and> env_mkdir (w i) = None
                \<and> env_get (w i) = Inr (bodies i)"
  proof -
    have p: "\<exists>m. attempt d u (w i) =
           (Inl (TypeError m),
            [Mkdir (path_join ''output'' (hosts i @ ''_'' @ getTimestamp (env_now (w i)))),
             Get u, Parse (bodies i)])" if "i < 3" for i
    proof -
      from that have i: "i < maxRetries" by (simp add: maxRetries_def)
      with assms obtain res where "env_parse (w i) = Inr res" and "lacks_entries res" by blast
      moreover from h i have "env_hostname (w i) = Inr (hosts i)" and "env_mkdir (w i) = None"
        and "env_get (w i) = Inr (bodies i)" by simp_all
      ultimately show ?thesis using attempt_lacking_events by blast
    qed
    from p [of 0] obtain m0 where p0: "attempt d u (w 0) =
           (Inl (TypeError m0),
            [Mkdir (path_join ''output'' (hosts 0 @ ''_'' @ getTimestamp (env_now (w 0)))),
             Get u, Parse (bodies 0)])" by auto
    from p [of 1] obtain m1 where p1: "attempt d u (w 1) =
           (Inl (TypeError m1),
            [Mkdir (path_join ''output'' (hosts 1 @ ''_'' @ getTimestamp (env_now (w 1)))),
             Get u, Parse (bodies 1)])" by auto
    from p [of 2] obtain m2 where p2: "attempt d u (w 2) =
           (Inl (TypeError m2),
            [Mkdir (path_join ''output'' (hosts 2 @ ''_'' @ getTimestamp (env_now (w 2)))),
             Get u, Parse (bodies 2)])" by auto
    from three_failures [OF p0 p1 p2] show ?thesis by simp
  qed
  from a b c show ?thesis by blast
qed

section \<open>The example runs\<close>

lemma quota_completions:
  "\<forall>j<maxRetries. completion_content (env_completions quota_env j) = Inl (ExternalError ''429'')"
  by (simp add: quota_env_def example_env_def completion_content_def)

theorem processedKeyword_None_iff_witness:
  "outcome_of (processSitemap 5 ''https://x.com/sitemap.xml'' flaky_world) = Success example_result
   \<and> (\<exists>i<maxRetries. fst (attempt 5 ''https://x.com/sitemap.xml'' (flaky_world i)) = Inr example_result
         \<and> processedKeyword example_result
             \<in> set (attempt_keywords ''https://x.com/sitemap.xml'' (flaky_world i)))
   \<and> (\<exists>e. outcome_of (processSitemap 5 ''https://x.com/sitemap.xml'' quota_world) = Failure e)"
proof -
  let ?u = "''https://x.com/sitemap.xml''"
  have s: "outcome_of (processSitemap 5 ?u flaky_world) = Success example_result"
    by code_simp
  have n: "processedKeyword example_result \<noteq> ''None''"
    by (simp add: example_result_def)
  have k: "attempt_keywords ?u quota_env \<noteq> []"
    by code_simp
  have g: "\<exists>e. fst (generateArticle 5 (env_completions quota_env) k) = Inl e" for k
    by (simp add: generateArticle_exhausted [OF quota_completions])
  have q: "\<forall>i<maxRetries. attempt_keywords ?u (quota_world i) \<noteq> []
          \<and> (\<forall>k. \<exists>e. fst (generateArticle 5 (env_completions (quota_world i)) k) = Inl e)"
    using k g by (simp add: quota_world_def)
  show ?thesis
    using processedKeyword_None_iff [of 5 ?u flaky_world example_result quota_world] s n q
    by blast
qed

theorem processedKeyword_sentinel_or_keyword_witness:
  "outcome_of (processSitemap 5 ''https://x.com/sitemap.xml'' flaky_world) = Success example_result
   \<and> (\<exists>i<maxRetries. fst (attempt 5 ''https://x.com/sitemap.xml'' (flaky_world i)) = Inr example_result
         \<and> (processedKeyword example_result = ''None''
            \<or> processedKeyword example_result
                 \<in> set (attempt_keywords ''https://x.com/sitemap.xml'' (flaky_world i))))"
proof -
  let ?u = "''https://x.com/sitemap.xml''"
  have s: "outcome_of (processSitemap 5 ?u flaky_world) = Success example_result"
    by code_simp
  show ?thesis
    using processedKeyword_sentinel_or_keyword [OF s] s by blast
qed

theorem article_failure_retries_whole_pass_witness:
  "fst (attempt 5 ''https://x.com/sitemap.xml'' (quota_world 0)) = Inl (ExternalError ''429'')
   \<and> fst (processSitemap_loop 5 ''https://x.com/sitemap.xml'' quota_world 0)
       = fst (processSitemap_loop 5 ''https://x.com/sitemap.xml'' quota_world 1)
   \<and> prefix [Mkdir ''output/x.com_2024-01-02T03-04-05-678Z'', Get ''https://x.com/sitemap.xml'']
        (snd (attempt 5 ''https://x.com/sitemap.xml'' (quota_world 1)))"
proof -
  let ?u = "''https://x.com/sitemap.xml''"
  let ?locs = "[''https://x.com/plumbing-repair-nj.html'', ''https://x.com/about-us'']"
  have h1: "(0::nat) + 1 < maxRetries" by (simp add: maxRetries_def)
  have h2: "env_hostname (quota_world 0) = Inr ''x.com''"
    by (simp add: quota_world_def quota_env_def example_env_def)
  have h3: "env_mkdir (quota_world 0) = None"
    by (simp add: quota_world_def quota_env_def example_env_def)
  have h4: "fst (fetch_locs ?u (quota_world 0)) = Inr ?locs"
    by (simp add: quota_world_def quota_env_def example_env_def fetch_locs_def entries_of_def)
  have h5: "env_write_keywords (quota_world 0) = None"
    by (simp add: quota_world_def quota_env_def example_env_def)
  have h6: "env_write_phrases (quota_world 0) = None"
    by (simp add: quota_world_def quota_env_def example_env_def)
  have h7: "acc_keywords (classify_all ?locs) \<noteq> []"
    by code_simp
  have h8: "\<forall>j<maxRetries. completion_content (env_completions (quota_world 0) j)
              = Inl ((\<lambda>j. ExternalError ''429'') j)"
    using quota_completions by (simp add: quota_world_def)
  have h9: "env_hostname (quota_world (0 + 1)) = Inr ''x.com''"
    by (simp add: quota_world_def quota_env_def example_env_def)
  have h10: "env_mkdir (quota_world (0 + 1)) = None"
    by (simp add: quota_world_def quota_env_def example_env_def)
  have ts: "path_join ''output'' (''x.com'' @ ''_'' @ getTimestamp (env_now (quota_world (0 + 1))))
            = ''output/x.com_2024-01-02T03-04-05-678Z''"
    by (simp add: quota_world_def quota_env_def example_env_def getTimestamp_def path_join_def)
  show ?thesis
    using article_failure_retries_whole_pass [OF h1 h2 h3 h4 h5 h6 h7 h8 h9 h10, of 5 "[]"]
    unfolding ts by simp
qed

theorem missing_entries_fail_witness:
  "lacks_entries \<lparr>result_urlset = None\<rparr>
   \<and> (\<exists>e. outcome_of (processSitemap 5 ''https://x.com/sitemap.xml'' index_world) = Failure e)
   \<and> (\<exists>m. processSitemap 5 ''https://x.com/sitemap.xml'' index_world =
          (Inl (TypeError m),
           [Mkdir ''output/x.com_2024-01-02T03-04-05-678Z'', Get ''https://x.com/sitemap.xml'',
            Parse ''<sitemapindex/>'', Sleep 5,
            Mkdir ''output/x.com_2024-01-02T03-04-05-678Z'', Get ''https://x.com/sitemap.xml'',
            Parse ''<sitemapindex/>'', Sleep 10,
            Mkdir ''output/x.com_2024-01-02T03-04-05-678Z'', Get ''https://x.com/sitemap.xml'',
            Parse ''<sitemapindex/>'']))"
proof -
  let ?u = "''https://x.com/sitemap.xml''"
  have l: "lacks_entries \<lparr>result_urlset = None\<rparr>"
    by (simp add: lacks_entries_def)
  have h: "\<forall>i<maxRetries. \<exists>res. env_parse (index_world i) = Inr res \<and> lacks_entries res"
    using l by (simp add: index_world_def index_env_def example_env_def)
  have e: "\<forall>i<maxRetries. env_hostname (index_world i) = Inr ((\<lambda>i. ''x.com'') i)
             \<and> env_mkdir (index_world i) = None
             \<and> env_get (index_world i) = Inr ((\<lambda>i. ''<sitemapindex/>'') i)"
    by (simp add: index_world_def index_env_def example_env_def)
  have ts: "path_join ''output'' (''x.com'' @ ''_'' @ getTimestamp (env_now (index_world i)))
            = ''output/x.com_2024-01-02T03-04-05-678Z''" for i
    by (simp add: index_world_def index_env_def example_env_def getTimestamp_def path_join_def)
  show ?thesis
    using missing_entries_fail [OF h, of 5 ?u "\<lambda>i. ''x.com''" "\<lambda>i. ''<sitemapindex/>''"] e l
    unfolding ts by simp
qed

section \<open>The coordinator never exceeds its bound\<close>

lemma spaced_append: "spaced d xs \<Longrightarrow> spaced d ys \<Longrightarrow> spaced d (xs @ ys)"
  by (induction d xs rule: spaced.induct) auto

lemma dispatch_bound: "length (workers s) \<le> k \<Longrightarrow> length (workers (dispatch k d s)) \<le> k"
  by (auto simp: dispatch_def split: list.splits)

lemma on_exit_bound: "length (workers s) \<le> k \<Longrightarrow> length (workers (on_exit w s)) \<le> k"
proof -
  assume a: "length (workers s) \<le> k"
  have "length (removeAll w (workers s)) \<le> length (workers s)"
    by (simp add: removeAll_filter_not_eq)
  from this a have "length (removeAll w (workers s)) \<le> k" by (rule le_trans)
  then show ?thesis using a by (simp add: on_exit_def Let_def)
qed

lemma sched_step_bound:
  "length (workers s) \<le> k \<Longrightarrow> length (workers (sched_step k d s inp)) \<le> k"
proof (cases inp)
  case Timer
  assume a: "length (workers s) \<le> k"
  then have "length (workers (s\<lparr>pending := tl (pending s)\<rparr>)) \<le> k" by simp
  then have "length (workers (dispatch k d (s\<lparr>pending := tl (pending s)\<rparr>))) \<le> k"
    by (rule dispatch_bound)
  with a Timer show ?thesis
    by (simp add: sched_step_def dispatch_bound split: pc.splits)
next
  case (WorkerExit w)
  assume "length (workers s) \<le> k"
  with WorkerExit show ?thesis by (simp add: sched_step_def on_exit_bound)
qed

lemma dispatch_spaced: "spaced d (trace s) \<Longrightarrow> spaced d (trace (dispatch k d s))"
  by (auto simp: dispatch_def spaced_append split: list.splits)

lemma on_exit_spaced: "spaced d (trace s) \<Longrightarrow> spaced d (trace (on_exit w s))"
  by (auto simp: on_exit_def Let_def spaced_append)

lemma sched_step_spaced:
  "spaced d (trace s) \<Longrightarrow> spaced d (trace (sched_step k d s inp))"
proof (cases inp)
  case Timer
  assume a: "spaced d (trace s)"
  then have "spaced d (trace (s\<lparr>pending := tl (pending s)\<rparr>))" by simp
  then have "spaced d (trace (dispatch k d (s\<lparr>pending := tl (pending s)\<rparr>)))"
    by (rule dispatch_spaced)
  with a Timer show ?thesis
    by (simp add: sched_step_def dispatch_spaced split: pc.splits)
next
  case (WorkerExit w)
  assume "spaced d (trace s)"
  with WorkerExit show ?thesis by (simp add: sched_step_def on_exit_spaced)
qed

lemma foldl_invariant:
  "P s \<Longrightarrow> (\<And>s inp. P s \<Longrightarrow> P (f s inp)) \<Longrightarrow> P (foldl f s inputs)"
  by (induction inputs arbitrary: s) auto

lemma dispatch_launch: "launched (dispatch k d s) \<noteq> launched s \<Longrightarrow> length (workers s) < k"
  by (auto simp: dispatch_def split: list.splits if_splits)

lemma sched_step_launch:
  "launched (sched_step k d s inp) \<noteq> launched s \<Longrightarrow> length (workers s) < k"
proof (cases inp)
  case Timer
  assume a: "launched (sched_step k d s inp) \<noteq> launched s"
  show ?thesis
  proof (cases "pc s")
    case Polling
    with a Timer show ?thesis by (simp add: sched_step_def dispatch_launch)
  next
    case Pausing
    with a Timer have "launched (dispatch k d (s\<lparr>pending := tl (pending s)\<rparr>))
       \<noteq> launched (s\<lparr>pending := tl (pending s)\<rparr>)" by (simp add: sched_step_def)
    then have "length (workers (s\<lparr>pending := tl (pending s)\<rparr>)) < k" by (rule dispatch_launch)
    then show ?thesis by simp
  next
    case Draining
    with a Timer show ?thesis by (simp add: sched_step_def)
  next
    case Finished
    with a Timer show ?thesis by (simp add: sched_step_def)
  qed
next
  case (WorkerExit w)
  assume "launched (sched_step k d s inp) \<noteq> launched s"
  with WorkerExit show ?thesis by (auto simp: sched_step_def on_exit_def Let_def split: if_splits)
qed

text \<open>
  Claim C7. Whatever the order in which timers fire and workers exit, the map of workers
  never holds more than \<open>max_workers\<close> of them; in the trace every launch is directly
  followed by a wait of the delay, so that a wait lies between any two launches; and a
  step of the coordinator creates a worker only from a state with fewer than
  \<open>max_workers\<close> in flight: with that many or more it waits and tests again.
\<close>

theorem in_flight_bounded:
  "length (workers (sched_run k d urls inputs)) \<le> k
   \<and> spaced d (trace (sched_run k d urls inputs))
   \<and> (launched (sched_step k d s inp) \<noteq> launched s \<longrightarrow> length (workers s) < k)"
proof -
  have i1: "length (workers (sched_init k d urls)) \<le> k"
    unfolding sched_init_def by (rule dispatch_bound) simp
  have i2: "spaced d (trace (sched_init k d urls))"
    unfolding sched_init_def by (rule dispatch_spaced) simp
  have b: "length (workers (sched_run k d urls inputs)) \<le> k"
    unfolding sched_run_def
    by (rule foldl_invariant [where P = "\<lambda>s. length (workers s) \<le> k"])
      (simp_all add: i1 sched_step_bound)
  have t: "spaced d (trace (sched_run k d urls inputs))"
    unfolding sched_run_def
    by (rule foldl_invariant [where P = "\<lambda>s. spaced d (trace s)"])
      (simp_all add: i2 sched_step_spaced)
  from b t sched_step_launch show ?thesis by blast
qed

theorem in_flight_bounded_witness:
  "trace (sched_run 2 5 [''a'', ''b'', ''c''] [Timer, Timer, WorkerExit 0, Timer])
     = [Launch 0 ''a'', Wait 5, Launch 1 ''b'', Wait 5, Wait 5, Exited 0, Launch 2 ''c'', Wait 5]
   \<and> length (workers (sched_run 2 5 [''a'', ''b'', ''c''] [Timer, Timer])) = 2
   \<and> length (workers (sched_run 2 5 [''a'', ''b'', ''c''] [Timer, Timer, WorkerExit 0])) < 2
   \<and> length (workers (sched_run 2 5 [''a'', ''b'', ''c''] [Timer, Timer, WorkerExit 0, Timer])) \<le> 2"
proof -
  let ?s = "sched_run 2 5 [''a'', ''b'', ''c''] [Timer, Timer, WorkerExit 0]"
  have t: "trace (sched_run 2 5 [''a'', ''b'', ''c''] [Timer, Timer, WorkerExit 0, Timer])
     = [Launch 0 ''a'', Wait 5, Launch 1 ''b'', Wait 5, Wait 5, Exited 0, Launch 2 ''c'', Wait 5]"
    by code_simp
  have f: "length (workers (sched_run 2 5 [''a'', ''b'', ''c''] [Timer, Timer])) = 2"
    by code_simp
  have h: "launched (sched_step 2 5 ?s Timer) \<noteq> launched ?s"
    by code_simp
  show ?thesis
    using in_flight_bounded [of 2 5 "[''a'', ''b'', ''c'']" "[Timer, Timer, WorkerExit 0, Timer]" ?s Timer]
      t f h by simp
qed

section \<open>The summary step\<close>

text \<open>
  A result gets its own line when no line of an earlier result begins with its domain.
\<close>

lemma find_first:
  "\<forall>x \<in> set xs. \<not> P x \<Longrightarrow> P y \<Longrightarrow> find P (xs @ y # ys) = Some y"
  by (induction xs) auto

lemma summary_line_starts_with_domain: "startsWith (summary_line r) (domain r)"
  by (simp add: summary_line_def startsWith_def)

lemma write_summaries_own_line:
  assumes "\<forall>r' \<in> set before. \<not> startsWith (summary_line r') (domain r)"
  shows "write_summaries ts (before @ r # after) ! length before
         = (path_join (outputDir r) (''summary_'' @ ts @ ''.txt''), Some (summary_line r))"
proof -
  have "find (\<lambda>s. startsWith s (domain r)) (map summary_line before @ summary_line r # map summary_line after)
        = Some (summary_line r)"
    using assms by (intro find_first) (auto simp: summary_line_starts_with_domain)
  then show ?thesis
    by (simp add: write_summaries_def Let_def nth_append)
qed

text \<open>
  Claim C8 does not hold of the summary step. The content of each file is looked up with
  \<^verbatim>\<open>summaries.find(s => s.startsWith(r.domain))\<close>, the first line that begins with the
  domain of the result. With the results \<^const>\<open>result_au\<close> and \<^const>\<open>result_com\<close>, in
  this order, the file in the directory of
  \<^verbatim>\<open>example.com\<close> gets the line of \<^verbatim>\<open>example.com.au\<close>, with the counts and the keyword of
  that domain, and not its own line.
\<close>

theorem summary_of_other_domain:
  "write_summaries ''2024-01-02T03-05-00-000Z'' [result_au, result_com] =
     [(''output/example.com.au_2024-01-02T03-04-05-678Z/summary_2024-01-02T03-05-00-000Z.txt'',
       Some ''example.com.au: 12 keywords, 40 phrases, processed keyword: Drain Cleaning NJ''),
      (''output/example.com_2024-01-02T03-04-06-100Z/summary_2024-01-02T03-05-00-000Z.txt'',
       Some ''example.com.au: 12 keywords, 40 phrases, processed keyword: Drain Cleaning NJ'')]
   \<and> summary_line result_com = ''example.com: 0 keywords, 3 phrases, processed keyword: None''"
  by code_simp

end
